theory Spec2Isabelle
  imports Main "HOL-Library.Word"
begin

section \<open>Data model\<close>

text \<open>
  The counters of \<^verbatim>\<open>ControlBlockBase\<close> are \<^verbatim>\<open>size_t\<close>: unsigned machine integers of
  some width \<open>w\<close>, here \<open>'w word\<close>, so that \<^verbatim>\<open>++\<close> and \<^verbatim>\<open>--\<close> wrap around as they do in C++.

  A control block lives on the heap and is referred to by a pointer. Blocks are identified
  by the number of their allocation (the \<open>n\<close>-th \<^verbatim>\<open>new\<close> returns block \<open>n\<close>); a block pointer is
  \<open>Some n\<close>, and \<open>None\<close> is \<^verbatim>\<open>nullptr\<close>. A payload pointer is either the address of an object
  the caller allocated (\<open>Allocated\<close>), or the address of the storage embedded in a block
  (\<open>Storage\<close>, what \<^verbatim>\<open>ObjectControlBlock::GetDataPtr\<close> returns); again \<open>None\<close> is \<^verbatim>\<open>nullptr\<close>.
\<close>

type_synonym block_id = nat

datatype payload = Allocated nat | Storage block_id

type_synonym data_pointer = "payload option"

type_synonym block_pointer = "block_id option"

text \<open>
  The two subclasses of \<^verbatim>\<open>ControlBlockBase\<close>: \<^verbatim>\<open>PtrControlBlock\<close> keeps the pointer it was
  given (\<^verbatim>\<open>data_ptr_\<close>), \<^verbatim>\<open>ObjectControlBlock\<close> holds the payload in its own storage.
\<close>

datatype variant = PtrControlBlock data_pointer | ObjectControlBlock

record (overloaded) 'w ControlBlockBase =
  ref_count :: "'w word"
  weak_count :: "'w word"
  variant :: variant

record SharedPtr =
  data_ptr :: data_pointer
  control_block :: block_pointer

record WeakPtr =
  observe_data_ptr :: data_pointer
  observe_cb :: block_pointer

text \<open>
  What the program does to the outside world is recorded as a list of events:
  \<open>Teardown b\<close> is one run of \<^verbatim>\<open>OnZeroReferences\<close> of block \<open>b\<close> (the payload is destroyed),
  \<open>Release b\<close> is one \<^verbatim>\<open>delete this\<close> of block \<open>b\<close>.
\<close>

datatype event = Teardown block_id | Release block_id

text \<open>
  The program state: the live control blocks, the handle objects (a \<^verbatim>\<open>SharedPtr\<close> or a
  \<^verbatim>\<open>WeakPtr\<close> is an object with an address of its own, which is what \<^verbatim>\<open>&other == this\<close>
  compares), the events so far and the allocation counter.
\<close>

record (overloaded) 'w state =
  blocks :: "block_id \<rightharpoonup> 'w ControlBlockBase"
  shared :: "nat \<rightharpoonup> SharedPtr"
  weak :: "nat \<rightharpoonup> WeakPtr"
  events :: "event list"
  next_block :: block_id

text \<open>
  Failures: \<open>BadWeakPtr\<close> is the exception of the promoting constructor. \<open>UseAfterFree\<close>
  is a read or write of a control block that has been deleted, and \<open>InvalidHandle\<close> is an
  operation on a handle object that does not exist (or the construction of one where one
  exists already); C++ leaves both undefined, the model stops there.
\<close>

datatype error = BadWeakPtr | UseAfterFree | InvalidHandle

definition init :: "'w state" where
  "init = \<lparr>blocks = Map.empty, shared = Map.empty, weak = Map.empty, events = [], next_block = 0\<rparr>"

section \<open>\<^verbatim>\<open>ControlBlockBase\<close>\<close>

text \<open>The constructor: \<^verbatim>\<open>ref_count_ = 1\<close>, \<^verbatim>\<open>weak_count_ = 0\<close>.\<close>

definition new_block :: "variant \<Rightarrow> 'w::len ControlBlockBase" where
  "new_block v = \<lparr>ref_count = 1, weak_count = 0, variant = v\<rparr>"

definition GetCount :: "block_id \<Rightarrow> 'w::len state \<Rightarrow> error + 'w word" where
  "GetCount b s = (case blocks s b of None \<Rightarrow> Inl UseAfterFree | Some cb \<Rightarrow> Inr (ref_count cb))"

definition IncrementStrong :: "block_id \<Rightarrow> 'w::len state \<Rightarrow> error + 'w state" where
  "IncrementStrong b s =
     (case blocks s b of
        None \<Rightarrow> Inl UseAfterFree
      | Some cb \<Rightarrow> Inr (s\<lparr>blocks := (blocks s)(b \<mapsto> cb\<lparr>ref_count := ref_count cb + 1\<rparr>)\<rparr>))"

definition IncrementWeak :: "block_id \<Rightarrow> 'w::len state \<Rightarrow> error + 'w state" where
  "IncrementWeak b s =
     (case blocks s b of
        None \<Rightarrow> Inl UseAfterFree
      | Some cb \<Rightarrow> Inr (s\<lparr>blocks := (blocks s)(b \<mapsto> cb\<lparr>weak_count := weak_count cb + 1\<rparr>)\<rparr>))"

text \<open>\<^verbatim>\<open>delete this\<close>: the block leaves the heap.\<close>

definition delete_this :: "block_id \<Rightarrow> 'w state \<Rightarrow> 'w state" where
  "delete_this b s = s\<lparr>blocks := (blocks s)(b := None), events := events s @ [Release b]\<rparr>"

text \<open>
  \<^verbatim>\<open>OnZeroReferences\<close> is virtual: \<^verbatim>\<open>PtrControlBlock\<close> runs \<^verbatim>\<open>delete data_ptr_\<close>,
  \<^verbatim>\<open>ObjectControlBlock\<close> runs \<^verbatim>\<open>GetDataPtr()->~T()\<close>. Both run the destructor of the payload
  type \<^verbatim>\<open>T\<close>, a template parameter: the model takes it as the parameter \<open>dtor\<close>, the code
  that \<^verbatim>\<open>~T\<close> runs for the payload of block \<open>b\<close>.
\<close>

definition OnZeroReferences ::
  "(block_id \<Rightarrow> 'w state \<Rightarrow> error + 'w state) \<Rightarrow> block_id \<Rightarrow> 'w::len state \<Rightarrow> error + 'w state" where
  "OnZeroReferences dtor b s =
     (case blocks s b of
        None \<Rightarrow> Inl UseAfterFree
      | Some cb \<Rightarrow>
          (case variant cb of
             PtrControlBlock p \<Rightarrow> dtor b (s\<lparr>events := events s @ [Teardown b]\<rparr>)
           | ObjectControlBlock \<Rightarrow> dtor b (s\<lparr>events := events s @ [Teardown b]\<rparr>)))"

text \<open>
  \<^verbatim>\<open>if (--ref_count_ == 0) { OnZeroReferences(); if (weak_count_ == 0) delete this; }\<close>.
  The read of \<^verbatim>\<open>weak_count_\<close> comes after the hook has returned, from the state it left.
\<close>

definition DecrementStrong ::
  "(block_id \<Rightarrow> 'w state \<Rightarrow> error + 'w state) \<Rightarrow> block_id \<Rightarrow> 'w::len state \<Rightarrow> error + 'w state" where
  "DecrementStrong dtor b s =
     (case blocks s b of
        None \<Rightarrow> Inl UseAfterFree
      | Some cb \<Rightarrow>
          (let s1 = s\<lparr>blocks := (blocks s)(b \<mapsto> cb\<lparr>ref_count := ref_count cb - 1\<rparr>)\<rparr> in
           if ref_count cb - 1 = 0 then
             (case OnZeroReferences dtor b s1 of
                Inl e \<Rightarrow> Inl e
              | Inr s2 \<Rightarrow>
                  (case blocks s2 b of
                     None \<Rightarrow> Inl UseAfterFree
                   | Some cb2 \<Rightarrow> if weak_count cb2 = 0 then Inr (delete_this b s2) else Inr s2))
           else Inr s1))"

text \<open>\<^verbatim>\<open>if (--weak_count_ == 0 && ref_count_ == 0) delete this;\<close>\<close>

definition DecrementWeak :: "block_id \<Rightarrow> 'w::len state \<Rightarrow> error + 'w state" where
  "DecrementWeak b s =
     (case blocks s b of
        None \<Rightarrow> Inl UseAfterFree
      | Some cb \<Rightarrow>
          (let s1 = s\<lparr>blocks := (blocks s)(b \<mapsto> cb\<lparr>weak_count := weak_count cb - 1\<rparr>)\<rparr> in
           if weak_count cb - 1 = 0 \<and> ref_count cb = 0 then Inr (delete_this b s1) else Inr s1))"

text \<open>The destructor of a payload type that holds no handles: it touches nothing of the state.\<close>

definition plain_payload :: "block_id \<Rightarrow> 'w state \<Rightarrow> error + 'w state" where
  "plain_payload b s = Inr s"

section \<open>\<^verbatim>\<open>SharedPtr\<close>\<close>

text \<open>
  Every member function takes the address \<open>this\<close> of the handle it works on; a constructor
  takes the address where the new handle is built, which must be free.
  \<^verbatim>\<open>new PtrControlBlock<T>(ptr)\<close> and \<^verbatim>\<open>new ObjectControlBlock<T>(args...)\<close> are \<open>allocate\<close>.
\<close>

definition allocate :: "variant \<Rightarrow> 'w::len state \<Rightarrow> block_id \<times> 'w state" where
  "allocate v s =
     (next_block s,
      s\<lparr>blocks := (blocks s)(next_block s \<mapsto> new_block v), next_block := Suc (next_block s)\<rparr>)"

definition empty_shared :: SharedPtr where
  "empty_shared = \<lparr>data_ptr = None, control_block = None\<rparr>"

definition set_shared :: "nat \<Rightarrow> SharedPtr \<Rightarrow> 'w state \<Rightarrow> 'w state" where
  "set_shared this v s = s\<lparr>shared := (shared s)(this \<mapsto> v)\<rparr>"

text \<open>\<^verbatim>\<open>SharedPtr()\<close> and \<^verbatim>\<open>SharedPtr(std::nullptr_t)\<close>.\<close>

definition SharedPtr_default :: "nat \<Rightarrow> 'w state \<Rightarrow> error + 'w state" where
  "SharedPtr_default this s =
     (case shared s this of
        Some t \<Rightarrow> Inl InvalidHandle
      | None \<Rightarrow> Inr (set_shared this empty_shared s))"

text \<open>\<^verbatim>\<open>explicit SharedPtr(T* ptr)\<close> and \<^verbatim>\<open>SharedPtr(Y* ptr)\<close>: no test of \<open>ptr\<close>.\<close>

definition SharedPtr_from_ptr :: "nat \<Rightarrow> data_pointer \<Rightarrow> 'w::len state \<Rightarrow> error + 'w state" where
  "SharedPtr_from_ptr this ptr s =
     (case shared s this of
        Some t \<Rightarrow> Inl InvalidHandle
      | None \<Rightarrow>
          (case allocate (PtrControlBlock ptr) s of
             (b, s1) \<Rightarrow> Inr (set_shared this \<lparr>data_ptr = ptr, control_block = Some b\<rparr> s1)))"

text \<open>\<^verbatim>\<open>SharedPtr(T* ptr, ControlBlockBase* block)\<close>: stores the pair, counts nothing.\<close>

definition SharedPtr_from_pair ::
  "nat \<Rightarrow> data_pointer \<Rightarrow> block_pointer \<Rightarrow> 'w state \<Rightarrow> error + 'w state" where
  "SharedPtr_from_pair this ptr block s =
     (case shared s this of
        Some t \<Rightarrow> Inl InvalidHandle
      | None \<Rightarrow> Inr (set_shared this \<lparr>data_ptr = ptr, control_block = block\<rparr> s))"

text \<open>The copy constructors (from \<^verbatim>\<open>SharedPtr\<close> and from \<^verbatim>\<open>SharedPtr<Y>\<close>).\<close>

definition SharedPtr_copy :: "nat \<Rightarrow> nat \<Rightarrow> 'w::len state \<Rightarrow> error + 'w state" where
  "SharedPtr_copy this other s =
     (case shared s this of
        Some t \<Rightarrow> Inl InvalidHandle
      | None \<Rightarrow>
          (case shared s other of
             None \<Rightarrow> Inl InvalidHandle
           | Some ot \<Rightarrow>
               (let s1 = set_shared this
                           \<lparr>data_ptr = data_ptr ot, control_block = control_block ot\<rparr> s in
                case control_block ot of
                  None \<Rightarrow> Inr s1
                | Some b \<Rightarrow> IncrementStrong b s1)))"

text \<open>The move constructors.\<close>

definition SharedPtr_move :: "nat \<Rightarrow> nat \<Rightarrow> 'w state \<Rightarrow> error + 'w state" where
  "SharedPtr_move this other s =
     (case shared s this of
        Some t \<Rightarrow> Inl InvalidHandle
      | None \<Rightarrow>
          (case shared s other of
             None \<Rightarrow> Inl InvalidHandle
           | Some ot \<Rightarrow>
               Inr (set_shared other empty_shared
                     (set_shared this
                        \<lparr>data_ptr = data_ptr ot, control_block = control_block ot\<rparr> s))))"

text \<open>The aliasing constructor \<^verbatim>\<open>SharedPtr(const SharedPtr<Y>& other, T* ptr)\<close>.\<close>

definition SharedPtr_alias :: "nat \<Rightarrow> nat \<Rightarrow> data_pointer \<Rightarrow> 'w::len state \<Rightarrow> error + 'w state" where
  "SharedPtr_alias this other ptr s =
     (case shared s this of
        Some t \<Rightarrow> Inl InvalidHandle
      | None \<Rightarrow>
          (case shared s other of
             None \<Rightarrow> Inl InvalidHandle
           | Some ot \<Rightarrow>
               (let s1 = set_shared this \<lparr>data_ptr = ptr, control_block = control_block ot\<rparr> s in
                case control_block ot of
                  None \<Rightarrow> Inr s1
                | Some b \<Rightarrow> IncrementStrong b s1)))"

text \<open>
  The body of \<^verbatim>\<open>if (control_block_) control_block_->DecrementStrong();\<close>, shared by the
  assignments, the destructor and both \<^verbatim>\<open>Reset\<close>s.
\<close>

definition drop_strong ::
  "(block_id \<Rightarrow> 'w state \<Rightarrow> error + 'w state) \<Rightarrow> block_pointer \<Rightarrow> 'w::len state \<Rightarrow> error + 'w state" where
  "drop_strong dtor cb s = (case cb of None \<Rightarrow> Inr s | Some b \<Rightarrow> DecrementStrong dtor b s)"

text \<open>
  Copy assignment. \<open>other\<close> is read after the decrement, as in the source; both handles
  must still be there when the teardown hook has run.
\<close>

definition SharedPtr_copy_assign ::
  "(block_id \<Rightarrow> 'w state \<Rightarrow> error + 'w state) \<Rightarrow> nat \<Rightarrow> nat \<Rightarrow> 'w::len state \<Rightarrow> error + 'w state" where
  "SharedPtr_copy_assign dtor this other s =
     (case (shared s this, shared s other) of
        (Some t, Some ot0) \<Rightarrow>
          if other = this then Inr s
          else
            (case drop_strong dtor (control_block t) s of
               Inl e \<Rightarrow> Inl e
             | Inr s1 \<Rightarrow>
                 (case (shared s1 this, shared s1 other) of
                    (Some t1, Some ot) \<Rightarrow>
                      (let s2 = set_shared this
                                  \<lparr>data_ptr = data_ptr ot, control_block = control_block ot\<rparr> s1 in
                       case control_block ot of
                         None \<Rightarrow> Inr s2
                       | Some b \<Rightarrow> IncrementStrong b s2)
                  | _ \<Rightarrow> Inl InvalidHandle))
      | _ \<Rightarrow> Inl InvalidHandle)"

text \<open>Move assignment.\<close>

definition SharedPtr_move_assign ::
  "(block_id \<Rightarrow> 'w state \<Rightarrow> error + 'w state) \<Rightarrow> nat \<Rightarrow> nat \<Rightarrow> 'w::len state \<Rightarrow> error + 'w state" where
  "SharedPtr_move_assign dtor this other s =
     (case (shared s this, shared s other) of
        (Some t, Some ot0) \<Rightarrow>
          if other = this then Inr s
          else
            (case drop_strong dtor (control_block t) s of
               Inl e \<Rightarrow> Inl e
             | Inr s1 \<Rightarrow>
                 (case (shared s1 this, shared s1 other) of
                    (Some t1, Some ot) \<Rightarrow>
                      Inr (set_shared other empty_shared
                            (set_shared this
                               \<lparr>data_ptr = data_ptr ot, control_block = control_block ot\<rparr> s1))
                  | _ \<Rightarrow> Inl InvalidHandle))
      | _ \<Rightarrow> Inl InvalidHandle)"

text \<open>The destructor: the decrement, then the handle object is gone.\<close>

definition SharedPtr_dtor ::
  "(block_id \<Rightarrow> 'w state \<Rightarrow> error + 'w state) \<Rightarrow> nat \<Rightarrow> 'w::len state \<Rightarrow> error + 'w state" where
  "SharedPtr_dtor dtor this s =
     (case shared s this of
        None \<Rightarrow> Inl InvalidHandle
      | Some t \<Rightarrow>
          (case drop_strong dtor (control_block t) s of
             Inl e \<Rightarrow> Inl e
           | Inr s1 \<Rightarrow> Inr (s1\<lparr>shared := (shared s1)(this := None)\<rparr>)))"

text \<open>
  \<^verbatim>\<open>Reset()\<close>. The members of the handle are written after the decrement: the handle must
  still be there when the teardown hook has run.
\<close>

definition SharedPtr_Reset ::
  "(block_id \<Rightarrow> 'w state \<Rightarrow> error + 'w state) \<Rightarrow> nat \<Rightarrow> 'w::len state \<Rightarrow> error + 'w state" where
  "SharedPtr_Reset dtor this s =
     (case shared s this of
        None \<Rightarrow> Inl InvalidHandle
      | Some t \<Rightarrow>
          (case drop_strong dtor (control_block t) s of
             Inl e \<Rightarrow> Inl e
           | Inr s1 \<Rightarrow>
               (case shared s1 this of
                  None \<Rightarrow> Inl InvalidHandle
                | Some t1 \<Rightarrow> Inr (set_shared this empty_shared s1))))"

text \<open>
  \<^verbatim>\<open>Reset(Y* ptr)\<close>: it returns at once when \<open>ptr\<close> is the pointer the handle has. Otherwise
  the members are written after the decrement, as in \<^verbatim>\<open>Reset()\<close>.
\<close>

definition SharedPtr_Reset_ptr ::
  "(block_id \<Rightarrow> 'w state \<Rightarrow> error + 'w state) \<Rightarrow> nat \<Rightarrow> data_pointer \<Rightarrow> 'w::len state
     \<Rightarrow> error + 'w state" where
  "SharedPtr_Reset_ptr dtor this ptr s =
     (case shared s this of
        None \<Rightarrow> Inl InvalidHandle
      | Some t \<Rightarrow>
          if data_ptr t = ptr then Inr s
          else
            (case drop_strong dtor (control_block t) s of
               Inl e \<Rightarrow> Inl e
             | Inr s1 \<Rightarrow>
                 (case shared s1 this of
                    None \<Rightarrow> Inl InvalidHandle
                  | Some t1 \<Rightarrow>
                      (case ptr of
                         Some p \<Rightarrow>
                           (case allocate (PtrControlBlock ptr) s1 of
                              (b, s2) \<Rightarrow>
                                Inr (set_shared this \<lparr>data_ptr = ptr, control_block = Some b\<rparr> s2))
                       | None \<Rightarrow> Inr (set_shared this empty_shared s1)))))"

definition SharedPtr_Swap :: "nat \<Rightarrow> nat \<Rightarrow> 'w state \<Rightarrow> error + 'w state" where
  "SharedPtr_Swap this other s =
     (case (shared s this, shared s other) of
        (Some t, Some ot) \<Rightarrow> Inr (set_shared other t (set_shared this ot s))
      | _ \<Rightarrow> Inl InvalidHandle)"

text \<open>The observers, on the value of a handle.\<close>

definition Get :: "SharedPtr \<Rightarrow> data_pointer" where
  "Get p = data_ptr p"

definition UseCount :: "SharedPtr \<Rightarrow> 'w::len state \<Rightarrow> error + 'w word" where
  "UseCount p s = (case control_block p of None \<Rightarrow> Inr 0 | Some b \<Rightarrow> GetCount b s)"

definition operator_bool :: "SharedPtr \<Rightarrow> bool" where
  "operator_bool p = (data_ptr p \<noteq> None)"

definition operator_eq :: "SharedPtr \<Rightarrow> SharedPtr \<Rightarrow> bool" where
  "operator_eq left right = (Get left = Get right)"

text \<open>\<^verbatim>\<open>MakeShared\<close>: one allocation, the payload pointer is the block's storage.\<close>

definition GetDataPtr :: "block_id \<Rightarrow> data_pointer" where
  "GetDataPtr b = Some (Storage b)"

definition MakeShared :: "nat \<Rightarrow> 'w::len state \<Rightarrow> error + 'w state" where
  "MakeShared this s =
     (case allocate ObjectControlBlock s of
        (b, s1) \<Rightarrow> SharedPtr_from_pair this (GetDataPtr b) (Some b) s1)"

section \<open>\<^verbatim>\<open>WeakPtr\<close>\<close>

definition empty_weak :: WeakPtr where
  "empty_weak = \<lparr>observe_data_ptr = None, observe_cb = None\<rparr>"

definition set_weak :: "nat \<Rightarrow> WeakPtr \<Rightarrow> 'w state \<Rightarrow> 'w state" where
  "set_weak this v s = s\<lparr>weak := (weak s)(this \<mapsto> v)\<rparr>"

definition WeakPtr_default :: "nat \<Rightarrow> 'w state \<Rightarrow> error + 'w state" where
  "WeakPtr_default this s =
     (case weak s this of
        Some t \<Rightarrow> Inl InvalidHandle
      | None \<Rightarrow> Inr (set_weak this empty_weak s))"

text \<open>The copy constructors.\<close>

definition WeakPtr_copy :: "nat \<Rightarrow> nat \<Rightarrow> 'w::len state \<Rightarrow> error + 'w state" where
  "WeakPtr_copy this other s =
     (case weak s this of
        Some t \<Rightarrow> Inl InvalidHandle
      | None \<Rightarrow>
          (case weak s other of
             None \<Rightarrow> Inl InvalidHandle
           | Some ot \<Rightarrow>
               (let s1 = set_weak this
                           \<lparr>observe_data_ptr = observe_data_ptr ot, observe_cb = observe_cb ot\<rparr> s in
                case observe_cb ot of
                  None \<Rightarrow> Inr s1
                | Some b \<Rightarrow> IncrementWeak b s1)))"

definition WeakPtr_move :: "nat \<Rightarrow> nat \<Rightarrow> 'w state \<Rightarrow> error + 'w state" where
  "WeakPtr_move this other s =
     (case weak s this of
        Some t \<Rightarrow> Inl InvalidHandle
      | None \<Rightarrow>
          (case weak s other of
             None \<Rightarrow> Inl InvalidHandle
           | Some ot \<Rightarrow>
               Inr (set_weak other empty_weak
                     (set_weak this
                        \<lparr>observe_data_ptr = observe_data_ptr ot, observe_cb = observe_cb ot\<rparr> s))))"

text \<open>Demotion: \<^verbatim>\<open>WeakPtr(const SharedPtr<T>& other)\<close>.\<close>

definition WeakPtr_from_shared :: "nat \<Rightarrow> nat \<Rightarrow> 'w::len state \<Rightarrow> error + 'w state" where
  "WeakPtr_from_shared this other s =
     (case weak s this of
        Some t \<Rightarrow> Inl InvalidHandle
      | None \<Rightarrow>
          (case shared s other of
             None \<Rightarrow> Inl InvalidHandle
           | Some ot \<Rightarrow>
               (let s1 = set_weak this
                           \<lparr>observe_data_ptr = data_ptr ot, observe_cb = control_block ot\<rparr> s in
                case control_block ot of
                  None \<Rightarrow> Inr s1
                | Some b \<Rightarrow> IncrementWeak b s1)))"

definition drop_weak :: "block_pointer \<Rightarrow> 'w::len state \<Rightarrow> error + 'w state" where
  "drop_weak cb s = (case cb of None \<Rightarrow> Inr s | Some b \<Rightarrow> DecrementWeak b s)"

definition WeakPtr_copy_assign :: "nat \<Rightarrow> nat \<Rightarrow> 'w::len state \<Rightarrow> error + 'w state" where
  "WeakPtr_copy_assign this other s =
     (case (weak s this, weak s other) of
        (Some t, Some ot0) \<Rightarrow>
          if this = other then Inr s
          else
            (case drop_weak (observe_cb t) s of
               Inl e \<Rightarrow> Inl e
             | Inr s1 \<Rightarrow>
                 (case (weak s1 this, weak s1 other) of
                    (Some t1, Some ot) \<Rightarrow>
                      (let s2 = set_weak this
                                  \<lparr>observe_data_ptr = observe_data_ptr ot,
                                   observe_cb = observe_cb ot\<rparr> s1 in
                       case observe_cb ot of
                         None \<Rightarrow> Inr s2
                       | Some b \<Rightarrow> IncrementWeak b s2)
                  | _ \<Rightarrow> Inl InvalidHandle))
      | _ \<Rightarrow> Inl InvalidHandle)"

definition WeakPtr_move_assign :: "nat \<Rightarrow> nat \<Rightarrow> 'w::len state \<Rightarrow> error + 'w state" where
  "WeakPtr_move_assign this other s =
     (case (weak s this, weak s other) of
        (Some t, Some ot0) \<Rightarrow>
          if other = this then Inr s
          else
            (case drop_weak (observe_cb t) s of
               Inl e \<Rightarrow> Inl e
             | Inr s1 \<Rightarrow>
                 (case (weak s1 this, weak s1 other) of
                    (Some t1, Some ot) \<Rightarrow>
                      Inr (set_weak other empty_weak
                            (set_weak this
                               \<lparr>observe_data_ptr = observe_data_ptr ot,
                                observe_cb = observe_cb ot\<rparr> s1))
                  | _ \<Rightarrow> Inl InvalidHandle))
      | _ \<Rightarrow> Inl InvalidHandle)"

definition WeakPtr_dtor :: "nat \<Rightarrow> 'w::len state \<Rightarrow> error + 'w state" where
  "WeakPtr_dtor this s =
     (case weak s this of
        None \<Rightarrow> Inl InvalidHandle
      | Some t \<Rightarrow>
          (case drop_weak (observe_cb t) s of
             Inl e \<Rightarrow> Inl e
           | Inr s1 \<Rightarrow> Inr (s1\<lparr>weak := (weak s1)(this := None)\<rparr>)))"

definition WeakPtr_Reset :: "nat \<Rightarrow> 'w::len state \<Rightarrow> error + 'w state" where
  "WeakPtr_Reset this s =
     (case weak s this of
        None \<Rightarrow> Inl InvalidHandle
      | Some t \<Rightarrow>
          (case drop_weak (observe_cb t) s of
             Inl e \<Rightarrow> Inl e
           | Inr s1 \<Rightarrow> Inr (set_weak this empty_weak s1)))"

definition WeakPtr_Swap :: "nat \<Rightarrow> nat \<Rightarrow> 'w state \<Rightarrow> error + 'w state" where
  "WeakPtr_Swap this other s =
     (case (weak s this, weak s other) of
        (Some t, Some ot) \<Rightarrow> Inr (set_weak other t (set_weak this ot s))
      | _ \<Rightarrow> Inl InvalidHandle)"

definition WeakPtr_UseCount :: "WeakPtr \<Rightarrow> 'w::len state \<Rightarrow> error + 'w word" where
  "WeakPtr_UseCount p s = (case observe_cb p of None \<Rightarrow> Inr 0 | Some b \<Rightarrow> GetCount b s)"

definition Expired :: "WeakPtr \<Rightarrow> 'w::len state \<Rightarrow> error + bool" where
  "Expired p s = (case WeakPtr_UseCount p s of Inl e \<Rightarrow> Inl e | Inr c \<Rightarrow> Inr (c = 0))"

text \<open>
  \<^verbatim>\<open>Lock\<close> returns a \<^verbatim>\<open>SharedPtr\<close> by value: the model builds it at the address \<open>res\<close>.
  \<^verbatim>\<open>GetCount() > 0\<close> compares unsigned numbers.
\<close>

definition Lock :: "nat \<Rightarrow> nat \<Rightarrow> 'w::len state \<Rightarrow> error + 'w state" where
  "Lock res this s =
     (case weak s this of
        None \<Rightarrow> Inl InvalidHandle
      | Some t \<Rightarrow>
          (case observe_cb t of
             None \<Rightarrow> SharedPtr_default res s
           | Some b \<Rightarrow>
               (case GetCount b s of
                  Inl e \<Rightarrow> Inl e
                | Inr c \<Rightarrow>
                    if 0 < c then
                      (case IncrementStrong b s of
                         Inl e \<Rightarrow> Inl e
                       | Inr s1 \<Rightarrow> SharedPtr_from_pair res (observe_data_ptr t) (observe_cb t) s1)
                    else SharedPtr_default res s)))"

text \<open>
  The promoting constructor \<^verbatim>\<open>SharedPtr(const WeakPtr<T>& other)\<close>: when it throws, no handle
  has been built and nothing has been counted.
\<close>

definition SharedPtr_promote :: "nat \<Rightarrow> nat \<Rightarrow> 'w::len state \<Rightarrow> error + 'w state" where
  "SharedPtr_promote this other s =
     (case shared s this of
        Some t \<Rightarrow> Inl InvalidHandle
      | None \<Rightarrow>
          (case weak s other of
             None \<Rightarrow> Inl InvalidHandle
           | Some ot \<Rightarrow>
               (case observe_cb ot of
                  None \<Rightarrow> Inl BadWeakPtr
                | Some b \<Rightarrow>
                    (case GetCount b s of
                       Inl e \<Rightarrow> Inl e
                     | Inr c \<Rightarrow>
                         if c = 0 then Inl BadWeakPtr
                         else IncrementStrong b
                                (set_shared this
                                   \<lparr>data_ptr = observe_data_ptr ot, control_block = observe_cb ot\<rparr>
                                   s)))))"

section \<open>The intrusive pointer's counter\<close>

text \<open>
  \<^verbatim>\<open>SimpleCounter\<close> starts at 0; \<^verbatim>\<open>DecRef\<close> does not go below 0 and returns the new count.
  A \<^verbatim>\<open>RefCounted\<close> object carries one counter; \<^verbatim>\<open>Deleter::Destroy\<close> deletes the object.
\<close>

record (overloaded) 'w SimpleCounter =
  count :: "'w word"

definition SimpleCounter_init :: "'w::len SimpleCounter" where
  "SimpleCounter_init = \<lparr>count = 0\<rparr>"

definition SimpleCounter_IncRef :: "'w::len SimpleCounter \<Rightarrow> 'w word \<times> 'w SimpleCounter" where
  "SimpleCounter_IncRef c = (count c + 1, c\<lparr>count := count c + 1\<rparr>)"

definition SimpleCounter_DecRef :: "'w::len SimpleCounter \<Rightarrow> 'w word \<times> 'w SimpleCounter" where
  "SimpleCounter_DecRef c =
     (if 0 < count c then (count c - 1, c\<lparr>count := count c - 1\<rparr>) else (0, c))"

definition SimpleCounter_RefCount :: "'w::len SimpleCounter \<Rightarrow> 'w word" where
  "SimpleCounter_RefCount c = count c"

text \<open>
  The heap of \<^verbatim>\<open>RefCounted\<close> objects, and the list of the objects \<^verbatim>\<open>Destroy\<close> was called on.
\<close>

record (overloaded) 'w objects =
  counters :: "nat \<rightharpoonup> 'w SimpleCounter"
  destroyed :: "nat list"

definition RefCounted_IncRef :: "nat \<Rightarrow> 'w::len objects \<Rightarrow> error + 'w objects" where
  "RefCounted_IncRef a s =
     (case counters s a of
        None \<Rightarrow> Inl UseAfterFree
      | Some c \<Rightarrow> Inr (s\<lparr>counters := (counters s)(a \<mapsto> snd (SimpleCounter_IncRef c))\<rparr>))"

definition RefCounted_DecRef :: "nat \<Rightarrow> 'w::len objects \<Rightarrow> error + 'w objects" where
  "RefCounted_DecRef a s =
     (case counters s a of
        None \<Rightarrow> Inl UseAfterFree
      | Some c \<Rightarrow>
          (case SimpleCounter_DecRef c of
             (r, c1) \<Rightarrow>
               if r = 0 then Inr (s\<lparr>counters := (counters s)(a := None), destroyed := destroyed s @ [a]\<rparr>)
               else Inr (s\<lparr>counters := (counters s)(a \<mapsto> c1)\<rparr>)))"

definition RefCounted_RefCount :: "nat \<Rightarrow> 'w::len objects \<Rightarrow> error + 'w word" where
  "RefCounted_RefCount a s =
     (case counters s a of None \<Rightarrow> Inl UseAfterFree | Some c \<Rightarrow> Inr (SimpleCounter_RefCount c))"

section \<open>Programs: sequences of handle operations\<close>

datatype op =
    SharedDefault nat
  | SharedFromPtr nat data_pointer
  | SharedMake nat
  | SharedCopy nat nat
  | SharedMove nat nat
  | SharedAlias nat nat data_pointer
  | SharedPromote nat nat
  | SharedCopyAssign nat nat
  | SharedMoveAssign nat nat
  | SharedDtor nat
  | SharedReset nat
  | SharedResetPtr nat data_pointer
  | SharedSwap nat nat
  | WeakDefault nat
  | WeakCopy nat nat
  | WeakMove nat nat
  | WeakFromShared nat nat
  | WeakCopyAssign nat nat
  | WeakMoveAssign nat nat
  | WeakDtor nat
  | WeakReset nat
  | WeakSwap nat nat
  | WeakLock nat nat

fun apply_op ::
  "(block_id \<Rightarrow> 'w state \<Rightarrow> error + 'w state) \<Rightarrow> op \<Rightarrow> 'w::len state \<Rightarrow> error + 'w state" where
  "apply_op dtor (SharedDefault h) s = SharedPtr_default h s"
| "apply_op dtor (SharedFromPtr h p) s = SharedPtr_from_ptr h p s"
| "apply_op dtor (SharedMake h) s = MakeShared h s"
| "apply_op dtor (SharedCopy h g) s = SharedPtr_copy h g s"
| "apply_op dtor (SharedMove h g) s = SharedPtr_move h g s"
| "apply_op dtor (SharedAlias h g p) s = SharedPtr_alias h g p s"
| "apply_op dtor (SharedPromote h g) s = SharedPtr_promote h g s"
| "apply_op dtor (SharedCopyAssign h g) s = SharedPtr_copy_assign dtor h g s"
| "apply_op dtor (SharedMoveAssign h g) s = SharedPtr_move_assign dtor h g s"
| "apply_op dtor (SharedDtor h) s = SharedPtr_dtor dtor h s"
| "apply_op dtor (SharedReset h) s = SharedPtr_Reset dtor h s"
| "apply_op dtor (SharedResetPtr h p) s = SharedPtr_Reset_ptr dtor h p s"
| "apply_op dtor (SharedSwap h g) s = SharedPtr_Swap h g s"
| "apply_op dtor (WeakDefault h) s = WeakPtr_default h s"
| "apply_op dtor (WeakCopy h g) s = WeakPtr_copy h g s"
| "apply_op dtor (WeakMove h g) s = WeakPtr_move h g s"
| "apply_op dtor (WeakFromShared h g) s = WeakPtr_from_shared h g s"
| "apply_op dtor (WeakCopyAssign h g) s = WeakPtr_copy_assign h g s"
| "apply_op dtor (WeakMoveAssign h g) s = WeakPtr_move_assign h g s"
| "apply_op dtor (WeakDtor h) s = WeakPtr_dtor h s"
| "apply_op dtor (WeakReset h) s = WeakPtr_Reset h s"
| "apply_op dtor (WeakSwap h g) s = WeakPtr_Swap h g s"
| "apply_op dtor (WeakLock h g) s = Lock h g s"

text \<open>A program runs until its first failure.\<close>

fun run ::
  "(block_id \<Rightarrow> 'w state \<Rightarrow> error + 'w state) \<Rightarrow> op list \<Rightarrow> 'w::len state \<Rightarrow> error + 'w state" where
  "run dtor [] s = Inr s"
| "run dtor (x # xs) s = (case apply_op dtor x s of Inl e \<Rightarrow> Inl e | Inr s1 \<Rightarrow> run dtor xs s1)"

section \<open>The two counters side by side\<close>

text \<open>
  A sequence of increments and decrements, run on the strong count of one control block
  (no weak handle, a payload that holds no handles) and on the counter of one
  \<^verbatim>\<open>RefCounted\<close> object. After each operation one observes the counter, if the block or the
  object is still there, and how often the payload or the object has been destroyed so
  far. The run ends at an operation on a freed block or object.
\<close>

datatype count_op = Inc | Dec

fun block_trace ::
  "count_op list \<Rightarrow> block_id \<Rightarrow> 'w::len state \<Rightarrow> (error + ('w word option \<times> nat)) list" where
  "block_trace [] b s = []"
| "block_trace (x # xs) b s =
     (case (case x of Inc \<Rightarrow> IncrementStrong b s | Dec \<Rightarrow> DecrementStrong plain_payload b s) of
        Inl e \<Rightarrow> [Inl e]
      | Inr s1 \<Rightarrow>
          Inr (map_option ref_count (blocks s1 b), count_list (events s1) (Teardown b))
            # block_trace xs b s1)"

fun object_trace ::
  "count_op list \<Rightarrow> nat \<Rightarrow> 'w::len objects \<Rightarrow> (error + ('w word option \<times> nat)) list" where
  "object_trace [] a s = []"
| "object_trace (x # xs) a s =
     (case (case x of Inc \<Rightarrow> RefCounted_IncRef a s | Dec \<Rightarrow> RefCounted_DecRef a s) of
        Inl e \<Rightarrow> [Inl e]
      | Inr s1 \<Rightarrow>
          Inr (map_option count (counters s1 a), count_list (destroyed s1) a)
            # object_trace xs a s1)"

text \<open>The initial states: a block as its constructor leaves it, an object as its constructor leaves it.\<close>

definition first_block :: "'w::len state" where
  "first_block = snd (allocate ObjectControlBlock init)"

definition first_object :: "'w::len objects" where
  "first_object = \<lparr>counters = [0 \<mapsto> SimpleCounter_init], destroyed = []\<rparr>"

section \<open>Counting handles and events\<close>

text \<open>
  The handles that hold a given block, and how often that block's payload has been torn
  down and the block itself released so far.
\<close>

definition holders :: "('a \<Rightarrow> block_pointer) \<Rightarrow> (nat \<rightharpoonup> 'a) \<Rightarrow> block_id \<Rightarrow> nat set" where
  "holders f m b = {h. \<exists>p. m h = Some p \<and> f p = Some b}"

definition strong_owners :: "'w state \<Rightarrow> block_id \<Rightarrow> nat set" where
  "strong_owners s b = holders control_block (shared s) b"

definition weak_owners :: "'w state \<Rightarrow> block_id \<Rightarrow> nat set" where
  "weak_owners s b = holders observe_cb (weak s) b"

definition teardowns :: "'w state \<Rightarrow> block_id \<Rightarrow> nat" where
  "teardowns s b = count_list (events s) (Teardown b)"

definition releases :: "'w state \<Rightarrow> block_id \<Rightarrow> nat" where
  "releases s b = count_list (events s) (Release b)"

text \<open>
  Block \<open>b\<close> is in order for \<open>ns\<close> strong and \<open>nw\<close> weak owners: while it is on the heap its
  counters are \<open>ns\<close> and \<open>nw\<close>, not both 0, its payload has been torn down (once) exactly if
  \<open>ns\<close> is 0, and it has not been released; when it is not on the heap there are no
  owners, and it has been torn down and released exactly once if it was ever allocated.
\<close>

definition block_ok :: "'w::len state \<Rightarrow> block_id \<Rightarrow> nat \<Rightarrow> nat \<Rightarrow> bool" where
  "block_ok s b ns nw =
     (case blocks s b of
        Some cb \<Rightarrow>
          unat (ref_count cb) = ns \<and> unat (weak_count cb) = nw \<and> 0 < ns + nw
          \<and> b < next_block s
          \<and> teardowns s b = (if ns = 0 then 1 else 0) \<and> releases s b = 0
      | None \<Rightarrow>
          ns = 0 \<and> nw = 0
          \<and> teardowns s b = (if b < next_block s then 1 else 0)
          \<and> releases s b = (if b < next_block s then 1 else 0))"

definition consistent :: "'w::len state \<Rightarrow> bool" where
  "consistent s =
     (finite (dom (shared s)) \<and> finite (dom (weak s))
      \<and> (\<forall>b. block_ok s b (card (strong_owners s b)) (card (weak_owners s b))))"

text \<open>
  Handles are objects in memory: each lies at an address that is not null and fits into a
  machine word.
\<close>

definition in_memory :: "'w::len state \<Rightarrow> bool" where
  "in_memory s =
     (dom (shared s) \<subseteq> {0<..<2 ^ LENGTH('w)} \<and> dom (weak s) \<subseteq> {0<..<2 ^ LENGTH('w)})"

text \<open>The addresses of the handles an operation names.\<close>

fun handle_addresses :: "op \<Rightarrow> nat set" where
  "handle_addresses (SharedDefault h) = {h}"
| "handle_addresses (SharedFromPtr h p) = {h}"
| "handle_addresses (SharedMake h) = {h}"
| "handle_addresses (SharedCopy h g) = {h, g}"
| "handle_addresses (SharedMove h g) = {h, g}"
| "handle_addresses (SharedAlias h g p) = {h, g}"
| "handle_addresses (SharedPromote h g) = {h, g}"
| "handle_addresses (SharedCopyAssign h g) = {h, g}"
| "handle_addresses (SharedMoveAssign h g) = {h, g}"
| "handle_addresses (SharedDtor h) = {h}"
| "handle_addresses (SharedReset h) = {h}"
| "handle_addresses (SharedResetPtr h p) = {h}"
| "handle_addresses (SharedSwap h g) = {h, g}"
| "handle_addresses (WeakDefault h) = {h}"
| "handle_addresses (WeakCopy h g) = {h, g}"
| "handle_addresses (WeakMove h g) = {h, g}"
| "handle_addresses (WeakFromShared h g) = {h, g}"
| "handle_addresses (WeakCopyAssign h g) = {h, g}"
| "handle_addresses (WeakMoveAssign h g) = {h, g}"
| "handle_addresses (WeakDtor h) = {h}"
| "handle_addresses (WeakReset h) = {h}"
| "handle_addresses (WeakSwap h g) = {h, g}"
| "handle_addresses (WeakLock h g) = {h, g}"

text \<open>
  A step from a state in order is safe when it touches no freed block and, if it returns,
  leaves a state in order.
\<close>

definition safe_step :: "'w::len state \<Rightarrow> error + 'w state \<Rightarrow> bool" where
  "safe_step s r =
     (case r of
        Inl e \<Rightarrow> e \<noteq> UseAfterFree
      | Inr s' \<Rightarrow> consistent s' \<and> in_memory s')"

section \<open>Example states\<close>

definition idle_block :: "64 ControlBlockBase" where
  "idle_block = \<lparr>ref_count = 0, weak_count = 0, variant = ObjectControlBlock\<rparr>"

text \<open>
  One payload at address 7, its block 0, one \<^verbatim>\<open>SharedPtr\<close> at address 10 and one \<^verbatim>\<open>WeakPtr\<close>
  at address 11: the state after \<^verbatim>\<open>SharedPtr<T> p(new T); WeakPtr<T> w(p);\<close>.
\<close>

definition observed_state :: "64 state" where
  "observed_state =
     \<lparr>blocks = [0 \<mapsto> \<lparr>ref_count = 1, weak_count = 1,
                         variant = PtrControlBlock (Some (Allocated 7))\<rparr>],
      shared = [10 \<mapsto> \<lparr>data_ptr = Some (Allocated 7), control_block = Some 0\<rparr>],
      weak = [11 \<mapsto> \<lparr>observe_data_ptr = Some (Allocated 7), observe_cb = Some 0\<rparr>],
      events = [],
      next_block = 1\<rparr>"

text \<open>The same after the \<^verbatim>\<open>SharedPtr\<close> has been destroyed: the weak handle is expired.\<close>

definition expired_state :: "64 state" where
  "expired_state =
     \<lparr>blocks = [0 \<mapsto> \<lparr>ref_count = 0, weak_count = 1,
                         variant = PtrControlBlock (Some (Allocated 7))\<rparr>],
      shared = Map.empty,
      weak = [11 \<mapsto> \<lparr>observe_data_ptr = Some (Allocated 7), observe_cb = Some 0\<rparr>],
      events = [Teardown 0],
      next_block = 1\<rparr>"

text \<open>
  Two payloads made by \<^verbatim>\<open>MakeShared\<close>: block 0 is held by the handles 10 and 11, block 1 by
  the handle 12.
\<close>

definition two_blocks_state :: "64 state" where
  "two_blocks_state =
     \<lparr>blocks = [0 \<mapsto> \<lparr>ref_count = 2, weak_count = 0, variant = ObjectControlBlock\<rparr>,
                1 \<mapsto> \<lparr>ref_count = 1, weak_count = 0, variant = ObjectControlBlock\<rparr>],
      shared = [10 \<mapsto> \<lparr>data_ptr = Some (Storage 0), control_block = Some 0\<rparr>,
                11 \<mapsto> \<lparr>data_ptr = Some (Storage 0), control_block = Some 0\<rparr>,
                12 \<mapsto> \<lparr>data_ptr = Some (Storage 1), control_block = Some 1\<rparr>],
      weak = Map.empty,
      events = [],
      next_block = 2\<rparr>"

text \<open>
  The state after \<^verbatim>\<open>auto a = MakeShared<T>(); auto b = a;\<close> and the destruction of both
  handles: block 0 has been torn down and released.
\<close>

definition shared_twice_gone :: "64 state" where
  "shared_twice_gone =
     \<lparr>blocks = Map.empty, shared = Map.empty, weak = Map.empty,
      events = [Teardown 0, Release 0], next_block = 1\<rparr>"

text \<open>
  The destructor of a payload type that has one \<^verbatim>\<open>WeakPtr\<close> member, the handle object at
  the address \<open>member\<close>: \<^verbatim>\<open>~T\<close> destroys that member.
\<close>

definition self_observing_payload :: "nat \<Rightarrow> block_id \<Rightarrow> 'w::len state \<Rightarrow> error + 'w state" where
  "self_observing_payload member b s = WeakPtr_dtor member s"

text \<open>
  The destructor of a payload type that keeps a copy of the handle \<open>owner\<close> in a handle it
  builds at the address \<open>saved\<close>, unless there is one already:
  \<^verbatim>\<open>~T() { if (!saved) saved = new SharedPtr<T>(owner); }\<close>.
\<close>

definition resurrecting_payload :: "nat \<Rightarrow> nat \<Rightarrow> block_id \<Rightarrow> 'w::len state \<Rightarrow> error + 'w state" where
  "resurrecting_payload saved owner b s =
     (case shared s saved of
        None \<Rightarrow> SharedPtr_copy saved owner s
      | Some t \<Rightarrow> Inr s)"

text \<open>
  The state \<open>observed_state\<close> after \<^verbatim>\<open>Reset()\<close> of the handle 10, when the payload's destructor
  has built a copy of that handle at the address 13; and the state after the destruction of
  the copy.
\<close>

definition resurrected_state :: "64 state" where
  "resurrected_state =
     \<lparr>blocks = [0 \<mapsto> \<lparr>ref_count = 1, weak_count = 1,
                         variant = PtrControlBlock (Some (Allocated 7))\<rparr>],
      shared = [10 \<mapsto> empty_shared,
                13 \<mapsto> \<lparr>data_ptr = Some (Allocated 7), control_block = Some 0\<rparr>],
      weak = [11 \<mapsto> \<lparr>observe_data_ptr = Some (Allocated 7), observe_cb = Some 0\<rparr>],
      events = [Teardown 0],
      next_block = 1\<rparr>"

definition torn_down_twice :: "64 state" where
  "torn_down_twice =
     \<lparr>blocks = [0 \<mapsto> \<lparr>ref_count = 0, weak_count = 1,
                         variant = PtrControlBlock (Some (Allocated 7))\<rparr>],
      shared = [10 \<mapsto> empty_shared],
      weak = [11 \<mapsto> \<lparr>observe_data_ptr = Some (Allocated 7), observe_cb = Some 0\<rparr>],
      events = [Teardown 0, Teardown 0],
      next_block = 1\<rparr>"

text \<open>
  The destructor of the payload of block \<open>owner\<close>, whose type has one \<^verbatim>\<open>SharedPtr\<close> member, the
  handle object at the address \<open>member\<close>: \<^verbatim>\<open>~T\<close> destroys that member. The other payloads
  hold no handles.
\<close>

definition owning_payload :: "block_id \<Rightarrow> nat \<Rightarrow> block_id \<Rightarrow> 'w::len state \<Rightarrow> error + 'w state" where
  "owning_payload owner member b s =
     (if b = owner then SharedPtr_dtor plain_payload member s else Inr s)"

text \<open>
  The handle 10 holds block 0, whose payload has the handle 12 as a member; the handles 12
  and 13 hold block 1, whose payload holds no handles.
\<close>

definition holder_state :: "64 state" where
  "holder_state =
     \<lparr>blocks = [0 \<mapsto> \<lparr>ref_count = 1, weak_count = 0, variant = ObjectControlBlock\<rparr>,
                1 \<mapsto> \<lparr>ref_count = 2, weak_count = 0, variant = ObjectControlBlock\<rparr>],
      shared = [10 \<mapsto> \<lparr>data_ptr = Some (Storage 0), control_block = Some 0\<rparr>,
                12 \<mapsto> \<lparr>data_ptr = Some (Storage 1), control_block = Some 1\<rparr>,
                13 \<mapsto> \<lparr>data_ptr = Some (Storage 1), control_block = Some 1\<rparr>],
      weak = Map.empty,
      events = [],
      next_block = 2\<rparr>"

text \<open>The same after the handle 10 has given up block 0: the member 12 is gone with it.\<close>

definition holder_gone :: "64 state" where
  "holder_gone =
     \<lparr>blocks = [1 \<mapsto> \<lparr>ref_count = 1, weak_count = 0, variant = ObjectControlBlock\<rparr>],
      shared = [10 \<mapsto> \<lparr>data_ptr = Some (Storage 0), control_block = Some 0\<rparr>,
                13 \<mapsto> \<lparr>data_ptr = Some (Storage 1), control_block = Some 1\<rparr>],
      weak = Map.empty,
      events = [Teardown 0, Release 0],
      next_block = 2\<rparr>"

text \<open>
  The state after \<^verbatim>\<open>SharedPtr<T> a; SharedPtr<T> b(new T);\<close>: the handle 10 is empty, the
  handle 13 holds payload 7 and block 0.
\<close>

definition detached_state :: "64 state" where
  "detached_state =
     \<lparr>blocks = [0 \<mapsto> \<lparr>ref_count = 1, weak_count = 0,
                         variant = PtrControlBlock (Some (Allocated 7))\<rparr>],
      shared = [10 \<mapsto> empty_shared,
                13 \<mapsto> \<lparr>data_ptr = Some (Allocated 7), control_block = Some 0\<rparr>],
      weak = Map.empty,
      events = [],
      next_block = 1\<rparr>"

section \<open>Machine words\<close>

lemma unat_max_word: "unat (- 1 :: 'w::len word) = 2 ^ LENGTH('w) - 1"
proof -
  let ?x = "- 1 :: 'w word"
  have "unat (?x + 1) = (unat ?x + unat (1 :: 'w word)) mod 2 ^ LENGTH('w)"
    by (rule unat_word_ariths)
  then have m: "(unat ?x + 1) mod 2 ^ LENGTH('w) = 0" by simp
  have lt: "unat ?x < 2 ^ LENGTH('w)" by (rule unsigned_less)
  from m have "2 ^ LENGTH('w) dvd unat ?x + 1" by (simp add: dvd_eq_mod_eq_0)
  then have "2 ^ LENGTH('w) \<le> unat ?x + 1" by (rule dvd_imp_le) simp
  with lt show ?thesis by linarith
qed

lemma unat_succ: "(x :: 'w::len word) \<noteq> - 1 \<Longrightarrow> unat (x + 1) = Suc (unat x)"
  by (metis add.commute unatSuc add_eq_0_iff2)

section \<open>The counter operations, with a payload that holds no handles\<close>

lemma word_pred_zero: "(x - 1 = 0) = (x = (1 :: 'w::len word))"
  by auto

lemma OnZeroReferences_plain:
  "blocks s b = Some cb \<Longrightarrow>
     OnZeroReferences plain_payload b s = Inr (s\<lparr>events := events s @ [Teardown b]\<rparr>)"
  by (simp add: OnZeroReferences_def plain_payload_def split: variant.splits)

lemma DecrementStrong_plain:
  "blocks s b = Some cb \<Longrightarrow>
     DecrementStrong plain_payload b s =
       Inr (if ref_count cb = 1 then
              (if weak_count cb = 0
               then s\<lparr>blocks := (blocks s)(b := None), events := events s @ [Teardown b, Release b]\<rparr>
               else s\<lparr>blocks := (blocks s)(b \<mapsto> cb\<lparr>ref_count := 0\<rparr>),
                      events := events s @ [Teardown b]\<rparr>)
            else s\<lparr>blocks := (blocks s)(b \<mapsto> cb\<lparr>ref_count := ref_count cb - 1\<rparr>)\<rparr>)"
  by (simp add: DecrementStrong_def OnZeroReferences_plain delete_this_def word_pred_zero Let_def)

lemma DecrementWeak_eq:
  "blocks s b = Some cb \<Longrightarrow>
     DecrementWeak b s =
       Inr (if weak_count cb = 1 \<and> ref_count cb = 0
            then s\<lparr>blocks := (blocks s)(b := None), events := events s @ [Release b]\<rparr>
            else s\<lparr>blocks := (blocks s)(b \<mapsto> cb\<lparr>weak_count := weak_count cb - 1\<rparr>)\<rparr>)"
  by (simp add: DecrementWeak_def delete_this_def word_pred_zero Let_def)

lemma DecrementStrong_plain_frame:
  assumes "DecrementStrong plain_payload b s = Inr s1"
  shows "shared s1 = shared s" and "weak s1 = weak s" and "next_block s1 = next_block s"
    and "\<And>c. c \<noteq> b \<Longrightarrow> blocks s1 c = blocks s c"
proof -
  from assms obtain cb where cb: "blocks s b = Some cb"
    by (cases "blocks s b") (simp_all add: DecrementStrong_def)
  from assms show "shared s1 = shared s" and "weak s1 = weak s"
    and "next_block s1 = next_block s" and "\<And>c. c \<noteq> b \<Longrightarrow> blocks s1 c = blocks s c"
    unfolding DecrementStrong_plain [OF cb] by (auto split: if_splits)
qed

lemma drop_strong_plain_frame:
  assumes "drop_strong plain_payload p s = Inr s1"
  shows "shared s1 = shared s" and "weak s1 = weak s" and "next_block s1 = next_block s"
  using assms DecrementStrong_plain_frame [of _ s s1]
  by (auto simp add: drop_strong_def split: option.splits)

text \<open>The same for any payload: what \<^verbatim>\<open>DecrementStrong\<close> does around the teardown hook.\<close>

lemma OnZeroReferences_eq:
  "blocks s b = Some cb \<Longrightarrow>
     OnZeroReferences dtor b s = dtor b (s\<lparr>events := events s @ [Teardown b]\<rparr>)"
  by (simp add: OnZeroReferences_def split: variant.splits)

lemma DecrementStrong_eq:
  "blocks s b = Some cb \<Longrightarrow>
     DecrementStrong dtor b s =
       (if ref_count cb = 1 then
          (case dtor b (s\<lparr>blocks := (blocks s)(b \<mapsto> cb\<lparr>ref_count := 0\<rparr>),
                           events := events s @ [Teardown b]\<rparr>) of
             Inl e \<Rightarrow> Inl e
           | Inr s2 \<Rightarrow>
               (case blocks s2 b of
                  None \<Rightarrow> Inl UseAfterFree
                | Some cb2 \<Rightarrow> Inr (if weak_count cb2 = 0 then delete_this b s2 else s2)))
        else Inr (s\<lparr>blocks := (blocks s)(b \<mapsto> cb\<lparr>ref_count := ref_count cb - 1\<rparr>)\<rparr>))"
  by (simp add: DecrementStrong_def OnZeroReferences_eq word_pred_zero Let_def
      split: sum.splits option.splits)

section \<open>Owners of a block\<close>

lemma holders_iff: "h \<in> holders f m b \<longleftrightarrow> (\<exists>p. m h = Some p \<and> f p = Some b)"
  by (simp add: holders_def)

lemma holders_subset: "holders f m b \<subseteq> dom m"
  by (auto simp add: holders_def)

lemma finite_holders: "finite (dom m) \<Longrightarrow> finite (holders f m b)"
  using holders_subset by (rule finite_subset)

lemma holders_put:
  "holders f (m(h \<mapsto> p)) b =
     (if f p = Some b then insert h (holders f m b) else holders f m b - {h})"
  by (auto simp add: holders_def)

lemma holders_remove: "holders f (m(h := None)) b = holders f m b - {h}"
  by (auto simp add: holders_def)

lemma card_holders_pos:
  "finite (dom m) \<Longrightarrow> m h = Some p \<Longrightarrow> f p = Some b \<Longrightarrow> 0 < card (holders f m b)"
  by (metis card_gt_0_iff empty_iff finite_holders holders_iff)

lemma card_holders_remove:
  assumes "finite (dom m)"
  shows "card (holders f (m(h := None)) b) =
           card (holders f m b) - (if h \<in> holders f m b then 1 else 0)"
proof -
  have "finite (holders f m b)" using assms by (rule finite_holders)
  then show ?thesis
    by (simp add: holders_remove)
qed

lemma card_holders_put:
  assumes "finite (dom m)"
  shows "card (holders f (m(h \<mapsto> p)) b) =
           card (holders f m b) - (if h \<in> holders f m b then 1 else 0)
             + (if f p = Some b then 1 else 0)"
proof -
  have fin: "finite (holders f m b)" using assms by (rule finite_holders)
  show ?thesis
  proof (cases "f p = Some b")
    case True
    then have eq: "holders f (m(h \<mapsto> p)) b = insert h (holders f m b)"
      by (simp add: holders_put)
    show ?thesis
    proof (cases "h \<in> holders f m b")
      case in_old: True
      then have "0 < card (holders f m b)"
        using fin by (auto simp add: card_gt_0_iff)
      with in_old fin True show ?thesis
        by (simp add: eq insert_absorb)
    next
      case False
      with fin True show ?thesis
        by (simp add: eq)
    qed
  next
    case False
    with fin show ?thesis
      by (simp add: holders_put)
  qed
qed

section \<open>One block at a time\<close>

lemma teardowns_cong [simp]:
  "teardowns (s\<lparr>shared := x\<rparr>) = teardowns s"
  "teardowns (s\<lparr>weak := y\<rparr>) = teardowns s"
  "teardowns (s\<lparr>blocks := z\<rparr>) = teardowns s"
  "teardowns (s\<lparr>next_block := n\<rparr>) = teardowns s"
  by (simp_all add: teardowns_def fun_eq_iff)

lemma releases_cong [simp]:
  "releases (s\<lparr>shared := x\<rparr>) = releases s"
  "releases (s\<lparr>weak := y\<rparr>) = releases s"
  "releases (s\<lparr>blocks := z\<rparr>) = releases s"
  "releases (s\<lparr>next_block := n\<rparr>) = releases s"
  by (simp_all add: releases_def fun_eq_iff)

lemma block_ok_cong [simp]:
  "block_ok (s\<lparr>shared := x\<rparr>) = block_ok s"
  "block_ok (s\<lparr>weak := y\<rparr>) = block_ok s"
  by (simp_all add: block_ok_def fun_eq_iff split: option.splits)

lemma block_ok_other:
  "c \<noteq> b \<Longrightarrow> block_ok (s\<lparr>blocks := (blocks s)(b := x)\<rparr>) c = block_ok s c"
  "c \<noteq> b \<Longrightarrow> block_ok (s\<lparr>blocks := (blocks s)(b := x), events := events s @ [Teardown b]\<rparr>) c
     = block_ok s c"
  "c \<noteq> b \<Longrightarrow> block_ok (s\<lparr>blocks := (blocks s)(b := x), events := events s @ [Release b]\<rparr>) c
     = block_ok s c"
  "c \<noteq> b \<Longrightarrow>
     block_ok (s\<lparr>blocks := (blocks s)(b := x), events := events s @ [Teardown b, Release b]\<rparr>) c
     = block_ok s c"
  by (simp_all add: block_ok_def fun_eq_iff teardowns_def releases_def split: option.splits)

lemma block_ok_live: "block_ok s b ns nw \<Longrightarrow> 0 < ns + nw \<Longrightarrow> \<exists>cb. blocks s b = Some cb"
  by (cases "blocks s b") (simp_all add: block_ok_def)

lemma unat_succ_bound:
  fixes x :: "'w::len word"
  assumes "Suc (unat x) < 2 ^ LENGTH('w)"
  shows "unat (x + 1) = Suc (unat x)"
proof -
  from assms have "unat x \<noteq> 2 ^ LENGTH('w) - 1" by simp
  then have "x \<noteq> - 1" by (auto simp add: unat_max_word)
  then show ?thesis by (rule unat_succ)
qed

section \<open>What each counter operation does to a block that is in order\<close>

lemma unat_is_one: "(unat (x :: 'w::len word) = Suc 0) = (x = 1)"
  by (metis One_nat_def unat_1 word_unat_eq_iff)

lemma IncrementStrong_ok:
  fixes s :: "'w::len state"
  assumes "block_ok s b ns nw" and "0 < ns" and "Suc ns < 2 ^ LENGTH('w)"
  shows "\<exists>s1. IncrementStrong b s = Inr s1
           \<and> shared s1 = shared s \<and> weak s1 = weak s
           \<and> block_ok s1 b (Suc ns) nw
           \<and> (\<forall>c. c \<noteq> b \<longrightarrow> block_ok s1 c = block_ok s c)
           \<and> (\<forall>x. IncrementStrong b (s\<lparr>shared := x\<rparr>) = Inr (s1\<lparr>shared := x\<rparr>))"
proof -
  from assms(1,2) obtain cb where cb: "blocks s b = Some cb"
    using block_ok_live by fastforce
  let ?s1 = "s\<lparr>blocks := (blocks s)(b \<mapsto> cb\<lparr>ref_count := ref_count cb + 1\<rparr>)\<rparr>"
  from assms cb have "block_ok ?s1 b (Suc ns) nw"
    by (auto simp add: block_ok_def unat_succ_bound)
  moreover have "\<forall>c. c \<noteq> b \<longrightarrow> block_ok ?s1 c = block_ok s c"
    by (simp add: block_ok_other)
  ultimately show ?thesis
    using cb by (simp add: IncrementStrong_def)
qed

lemma IncrementWeak_ok:
  fixes s :: "'w::len state"
  assumes "block_ok s b ns nw" and "0 < ns + nw" and "Suc nw < 2 ^ LENGTH('w)"
  shows "\<exists>s1. IncrementWeak b s = Inr s1
           \<and> shared s1 = shared s \<and> weak s1 = weak s
           \<and> block_ok s1 b ns (Suc nw)
           \<and> (\<forall>c. c \<noteq> b \<longrightarrow> block_ok s1 c = block_ok s c)
           \<and> (\<forall>x. IncrementWeak b (s\<lparr>weak := x\<rparr>) = Inr (s1\<lparr>weak := x\<rparr>))"
proof -
  from assms(1,2) obtain cb where cb: "blocks s b = Some cb"
    using block_ok_live by fastforce
  let ?s1 = "s\<lparr>blocks := (blocks s)(b \<mapsto> cb\<lparr>weak_count := weak_count cb + 1\<rparr>)\<rparr>"
  from assms cb have "block_ok ?s1 b ns (Suc nw)"
    by (auto simp add: block_ok_def unat_succ_bound)
  moreover have "\<forall>c. c \<noteq> b \<longrightarrow> block_ok ?s1 c = block_ok s c"
    by (simp add: block_ok_other)
  ultimately show ?thesis
    using cb by (simp add: IncrementWeak_def)
qed

lemma DecrementStrong_ok:
  fixes s :: "'w::len state"
  assumes "block_ok s b ns nw" and "0 < ns"
  shows "\<exists>s1. DecrementStrong plain_payload b s = Inr s1
           \<and> shared s1 = shared s \<and> weak s1 = weak s
           \<and> block_ok s1 b (ns - 1) nw
           \<and> (\<forall>c. c \<noteq> b \<longrightarrow> block_ok s1 c = block_ok s c)"
proof -
  from assms obtain cb where cb: "blocks s b = Some cb"
    using block_ok_live by fastforce
  from assms cb have ok: "unat (ref_count cb) = ns" "unat (weak_count cb) = nw"
    "b < next_block s" "teardowns s b = 0" "releases s b = 0"
    by (simp_all add: block_ok_def)
  from ok(1) assms(2) have nz: "ref_count cb \<noteq> 0" by auto
  show ?thesis
  proof (cases "ref_count cb = 1")
    case one: True
    with ok(1) have ns: "ns = 1" by simp
    show ?thesis
    proof (cases "weak_count cb = 0")
      case True
      with ok(2) have nw: "nw = 0" by simp
      let ?s1 = "s\<lparr>blocks := (blocks s)(b := None), events := events s @ [Teardown b, Release b]\<rparr>"
      from ok ns nw have "block_ok ?s1 b (ns - 1) nw"
        by (simp add: block_ok_def teardowns_def releases_def)
      moreover have "\<forall>c. c \<noteq> b \<longrightarrow> block_ok ?s1 c = block_ok s c"
        by (simp add: block_ok_other)
      ultimately show ?thesis
        using cb one True by (simp add: DecrementStrong_plain)
    next
      case False
      with ok(2) have nw: "0 < nw" by (auto simp add: unat_gt_0)
      let ?s1 = "s\<lparr>blocks := (blocks s)(b \<mapsto> cb\<lparr>ref_count := 0\<rparr>), events := events s @ [Teardown b]\<rparr>"
      from ok ns nw have "block_ok ?s1 b (ns - 1) nw"
        by (simp add: block_ok_def teardowns_def releases_def)
      moreover have "\<forall>c. c \<noteq> b \<longrightarrow> block_ok ?s1 c = block_ok s c"
        by (simp add: block_ok_other)
      ultimately show ?thesis
        using cb one False by (simp add: DecrementStrong_plain)
    qed
  next
    case False
    let ?s1 = "s\<lparr>blocks := (blocks s)(b \<mapsto> cb\<lparr>ref_count := ref_count cb - 1\<rparr>)\<rparr>"
    from nz have u: "unat (ref_count cb - 1) = unat (ref_count cb) - 1"
      by (rule unat_minus_one)
    from False ok(1) have "ns \<noteq> 1" by (simp add: unat_is_one [symmetric])
    with assms(2) have "1 < ns" by simp
    with ok u have "block_ok ?s1 b (ns - 1) nw"
      by (simp add: block_ok_def)
    moreover have "\<forall>c. c \<noteq> b \<longrightarrow> block_ok ?s1 c = block_ok s c"
      by (simp add: block_ok_other)
    ultimately show ?thesis
      using cb False by (simp add: DecrementStrong_plain)
  qed
qed

lemma DecrementWeak_ok:
  fixes s :: "'w::len state"
  assumes "block_ok s b ns nw" and "0 < nw"
  shows "\<exists>s1. DecrementWeak b s = Inr s1
           \<and> shared s1 = shared s \<and> weak s1 = weak s
           \<and> block_ok s1 b ns (nw - 1)
           \<and> (\<forall>c. c \<noteq> b \<longrightarrow> block_ok s1 c = block_ok s c)"
proof -
  from assms obtain cb where cb: "blocks s b = Some cb"
    using block_ok_live by fastforce
  from assms cb have ok: "unat (ref_count cb) = ns" "unat (weak_count cb) = nw"
    "b < next_block s" "teardowns s b = (if ns = 0 then 1 else 0)" "releases s b = 0"
    by (simp_all add: block_ok_def)
  from ok(2) assms(2) have nz: "weak_count cb \<noteq> 0" by auto
  then have u: "unat (weak_count cb - 1) = unat (weak_count cb) - 1"
    by (rule unat_minus_one)
  show ?thesis
  proof (cases "weak_count cb = 1 \<and> ref_count cb = 0")
    case True
    with ok(1,2) have n: "ns = 0" "nw = 1" by simp_all
    let ?s1 = "s\<lparr>blocks := (blocks s)(b := None), events := events s @ [Release b]\<rparr>"
    from ok n have "block_ok ?s1 b ns (nw - 1)"
      by (simp add: block_ok_def teardowns_def releases_def)
    moreover have "\<forall>c. c \<noteq> b \<longrightarrow> block_ok ?s1 c = block_ok s c"
      by (simp add: block_ok_other)
    ultimately show ?thesis
      using cb True by (simp add: DecrementWeak_eq)
  next
    case False
    let ?s1 = "s\<lparr>blocks := (blocks s)(b \<mapsto> cb\<lparr>weak_count := weak_count cb - 1\<rparr>)\<rparr>"
    from False ok(1,2) have "nw \<noteq> 1 \<or> ns \<noteq> 0"
      by (auto simp add: unat_is_one [symmetric] unat_gt_0)
    with assms(2) have "0 < ns + (nw - 1)" by arith
    with ok u have "block_ok ?s1 b ns (nw - 1)"
      by (simp add: block_ok_def)
    moreover have "\<forall>c. c \<noteq> b \<longrightarrow> block_ok ?s1 c = block_ok s c"
      by (simp add: block_ok_other)
    ultimately show ?thesis
      using cb False by (auto simp add: DecrementWeak_eq)
  qed
qed

section \<open>Handles and counters move together\<close>

lemma consistentD:
  assumes "consistent s"
  shows "finite (dom (shared s))" and "finite (dom (weak s))"
    and "block_ok s c (card (holders control_block (shared s) c))
           (card (holders observe_cb (weak s) c))"
  using assms by (simp_all add: consistent_def strong_owners_def weak_owners_def)

lemma consistentI:
  assumes "finite (dom (shared s))" and "finite (dom (weak s))"
    and "\<And>c. block_ok s c (card (holders control_block (shared s) c))
           (card (holders observe_cb (weak s) c))"
  shows "consistent s"
  using assms by (simp add: consistent_def strong_owners_def weak_owners_def)

text \<open>Handles may be rearranged at will as long as every block keeps its number of owners.\<close>

lemma consistent_reshuffle:
  assumes "consistent s" and "finite (dom X)"
    and "\<And>c. card (holders control_block X c) = card (holders control_block (shared s) c)"
  shows "consistent (s\<lparr>shared := X\<rparr>)"
  using assms consistentD [OF assms(1)] by (intro consistentI) simp_all

lemma consistent_reshuffle_weak:
  assumes "consistent s" and "finite (dom Y)"
    and "\<And>c. card (holders observe_cb Y c) = card (holders observe_cb (weak s) c)"
  shows "consistent (s\<lparr>weak := Y\<rparr>)"
  using assms consistentD [OF assms(1)] by (intro consistentI) simp_all

text \<open>A handle that holds no block takes a share of a block that has an owner.\<close>

lemma acquire_strong:
  fixes s :: "'w::len state"
  assumes con: "consistent s"
    and free: "\<And>q. shared s h = Some q \<Longrightarrow> control_block q = None"
    and own: "shared s g = Some q0" "control_block q0 = Some b"
    and small: "Suc (card (holders control_block (shared s) b)) < 2 ^ LENGTH('w)"
    and p: "control_block p = Some b"
  shows "\<exists>s1. IncrementStrong b s = Inr s1
           \<and> shared s1 = shared s \<and> weak s1 = weak s
           \<and> (\<forall>x. IncrementStrong b (s\<lparr>shared := x\<rparr>) = Inr (s1\<lparr>shared := x\<rparr>))
           \<and> consistent (s1\<lparr>shared := (shared s)(h \<mapsto> p)\<rparr>)"
proof -
  note d = consistentD [OF con]
  let ?n = "\<lambda>c. card (holders control_block (shared s) c)"
  let ?m = "\<lambda>c. card (holders observe_cb (weak s) c)"
  have pos: "0 < ?n b" using d(1) own by (rule card_holders_pos)
  from IncrementStrong_ok [OF d(3) pos small] obtain s1 where s1:
    "IncrementStrong b s = Inr s1" "shared s1 = shared s" "weak s1 = weak s"
    "block_ok s1 b (Suc (?n b)) (?m b)" "\<And>c. c \<noteq> b \<Longrightarrow> block_ok s1 c = block_ok s c"
    "\<And>x. IncrementStrong b (s\<lparr>shared := x\<rparr>) = Inr (s1\<lparr>shared := x\<rparr>)"
    by blast
  have absent: "h \<notin> holders control_block (shared s) c" for c
    using free by (auto simp add: holders_iff)
  have "consistent (s1\<lparr>shared := (shared s)(h \<mapsto> p)\<rparr>)"
  proof (rule consistentI)
    fix c
    show "block_ok (s1\<lparr>shared := (shared s)(h \<mapsto> p)\<rparr>) c
            (card (holders control_block (shared (s1\<lparr>shared := (shared s)(h \<mapsto> p)\<rparr>)) c))
            (card (holders observe_cb (weak (s1\<lparr>shared := (shared s)(h \<mapsto> p)\<rparr>)) c))"
      using s1(2-4) s1(5) [of c] d p
      by (cases "c = b") (simp_all add: card_holders_put absent)
  qed (use d s1 in simp_all)
  with s1(1-3,6) show ?thesis by blast
qed

text \<open>A handle gives up its share.\<close>

lemma release_strong:
  fixes s :: "'w::len state"
  assumes con: "consistent s"
    and own: "shared s h = Some q" "control_block q = Some b"
  shows "\<exists>s1. DecrementStrong plain_payload b s = Inr s1
           \<and> shared s1 = shared s \<and> weak s1 = weak s
           \<and> (\<forall>p. control_block p = None \<longrightarrow> consistent (s1\<lparr>shared := (shared s)(h \<mapsto> p)\<rparr>))
           \<and> consistent (s1\<lparr>shared := (shared s)(h := None)\<rparr>)"
proof -
  note d = consistentD [OF con]
  let ?n = "\<lambda>c. card (holders control_block (shared s) c)"
  let ?m = "\<lambda>c. card (holders observe_cb (weak s) c)"
  have pos: "0 < ?n b" using d(1) own by (rule card_holders_pos)
  from DecrementStrong_ok [OF d(3) pos] obtain s1 where s1:
    "DecrementStrong plain_payload b s = Inr s1" "shared s1 = shared s" "weak s1 = weak s"
    "block_ok s1 b (?n b - 1) (?m b)" "\<And>c. c \<noteq> b \<Longrightarrow> block_ok s1 c = block_ok s c"
    by blast
  have mine: "(h \<in> holders control_block (shared s) c) = (c = b)" for c
    using own by (auto simp add: holders_iff)
  have "consistent (s1\<lparr>shared := (shared s)(h \<mapsto> p)\<rparr>)" if "control_block p = None" for p
  proof (rule consistentI)
    fix c
    show "block_ok (s1\<lparr>shared := (shared s)(h \<mapsto> p)\<rparr>) c
            (card (holders control_block (shared (s1\<lparr>shared := (shared s)(h \<mapsto> p)\<rparr>)) c))
            (card (holders observe_cb (weak (s1\<lparr>shared := (shared s)(h \<mapsto> p)\<rparr>)) c))"
      using s1(2-4) s1(5) [of c] d that
      by (cases "c = b") (simp_all add: card_holders_put mine)
  qed (use d s1 in simp_all)
  moreover have "consistent (s1\<lparr>shared := (shared s)(h := None)\<rparr>)"
  proof (rule consistentI)
    fix c
    show "block_ok (s1\<lparr>shared := (shared s)(h := None)\<rparr>) c
            (card (holders control_block (shared (s1\<lparr>shared := (shared s)(h := None)\<rparr>)) c))
            (card (holders observe_cb (weak (s1\<lparr>shared := (shared s)(h := None)\<rparr>)) c))"
      using s1(2-4) s1(5) [of c] d
      by (cases "c = b") (simp_all add: card_holders_remove mine)
  qed (use d s1 in simp_all)
  ultimately show ?thesis using s1(1-3) by blast
qed

text \<open>The same for weak handles.\<close>

lemma acquire_weak:
  fixes s :: "'w::len state"
  assumes con: "consistent s"
    and free: "\<And>q. weak s h = Some q \<Longrightarrow> observe_cb q = None"
    and live: "0 < card (holders control_block (shared s) b)
                 + card (holders observe_cb (weak s) b)"
    and small: "Suc (card (holders observe_cb (weak s) b)) < 2 ^ LENGTH('w)"
    and p: "observe_cb p = Some b"
  shows "\<exists>s1. IncrementWeak b s = Inr s1
           \<and> shared s1 = shared s \<and> weak s1 = weak s
           \<and> (\<forall>x. IncrementWeak b (s\<lparr>weak := x\<rparr>) = Inr (s1\<lparr>weak := x\<rparr>))
           \<and> consistent (s1\<lparr>weak := (weak s)(h \<mapsto> p)\<rparr>)"
proof -
  note d = consistentD [OF con]
  let ?n = "\<lambda>c. card (holders control_block (shared s) c)"
  let ?m = "\<lambda>c. card (holders observe_cb (weak s) c)"
  from IncrementWeak_ok [OF d(3) live small] obtain s1 where s1:
    "IncrementWeak b s = Inr s1" "shared s1 = shared s" "weak s1 = weak s"
    "block_ok s1 b (?n b) (Suc (?m b))" "\<And>c. c \<noteq> b \<Longrightarrow> block_ok s1 c = block_ok s c"
    "\<And>x. IncrementWeak b (s\<lparr>weak := x\<rparr>) = Inr (s1\<lparr>weak := x\<rparr>)"
    by blast
  have absent: "h \<notin> holders observe_cb (weak s) c" for c
    using free by (auto simp add: holders_iff)
  have "consistent (s1\<lparr>weak := (weak s)(h \<mapsto> p)\<rparr>)"
  proof (rule consistentI)
    fix c
    show "block_ok (s1\<lparr>weak := (weak s)(h \<mapsto> p)\<rparr>) c
            (card (holders control_block (shared (s1\<lparr>weak := (weak s)(h \<mapsto> p)\<rparr>)) c))
            (card (holders observe_cb (weak (s1\<lparr>weak := (weak s)(h \<mapsto> p)\<rparr>)) c))"
      using s1(2-4) s1(5) [of c] d p
      by (cases "c = b") (simp_all add: card_holders_put absent)
  qed (use d s1 in simp_all)
  with s1(1-3,6) show ?thesis by blast
qed

lemma release_weak:
  fixes s :: "'w::len state"
  assumes con: "consistent s"
    and own: "weak s h = Some q" "observe_cb q = Some b"
  shows "\<exists>s1. DecrementWeak b s = Inr s1
           \<and> shared s1 = shared s \<and> weak s1 = weak s
           \<and> (\<forall>p. observe_cb p = None \<longrightarrow> consistent (s1\<lparr>weak := (weak s)(h \<mapsto> p)\<rparr>))
           \<and> consistent (s1\<lparr>weak := (weak s)(h := None)\<rparr>)"
proof -
  note d = consistentD [OF con]
  let ?n = "\<lambda>c. card (holders control_block (shared s) c)"
  let ?m = "\<lambda>c. card (holders observe_cb (weak s) c)"
  have pos: "0 < ?m b" using d(2) own by (rule card_holders_pos)
  from DecrementWeak_ok [OF d(3) pos] obtain s1 where s1:
    "DecrementWeak b s = Inr s1" "shared s1 = shared s" "weak s1 = weak s"
    "block_ok s1 b (?n b) (?m b - 1)" "\<And>c. c \<noteq> b \<Longrightarrow> block_ok s1 c = block_ok s c"
    by blast
  have mine: "(h \<in> holders observe_cb (weak s) c) = (c = b)" for c
    using own by (auto simp add: holders_iff)
  have "consistent (s1\<lparr>weak := (weak s)(h \<mapsto> p)\<rparr>)" if "observe_cb p = None" for p
  proof (rule consistentI)
    fix c
    show "block_ok (s1\<lparr>weak := (weak s)(h \<mapsto> p)\<rparr>) c
            (card (holders control_block (shared (s1\<lparr>weak := (weak s)(h \<mapsto> p)\<rparr>)) c))
            (card (holders observe_cb (weak (s1\<lparr>weak := (weak s)(h \<mapsto> p)\<rparr>)) c))"
      using s1(2-4) s1(5) [of c] d that
      by (cases "c = b") (simp_all add: card_holders_put mine)
  qed (use d s1 in simp_all)
  moreover have "consistent (s1\<lparr>weak := (weak s)(h := None)\<rparr>)"
  proof (rule consistentI)
    fix c
    show "block_ok (s1\<lparr>weak := (weak s)(h := None)\<rparr>) c
            (card (holders control_block (shared (s1\<lparr>weak := (weak s)(h := None)\<rparr>)) c))
            (card (holders observe_cb (weak (s1\<lparr>weak := (weak s)(h := None)\<rparr>)) c))"
      using s1(2-4) s1(5) [of c] d
      by (cases "c = b") (simp_all add: card_holders_remove mine)
  qed (use d s1 in simp_all)
  ultimately show ?thesis using s1(1-3) by blast
qed

text \<open>A new block for a handle that holds none.\<close>

lemma block_ok_allocate_other:
  "c \<noteq> next_block s \<Longrightarrow>
     block_ok (s\<lparr>blocks := (blocks s)(next_block s \<mapsto> x), next_block := Suc (next_block s)\<rparr>) c
       = block_ok s c"
  by (auto simp add: block_ok_def fun_eq_iff less_Suc_eq split: option.splits)

lemma next_block_unused:
  assumes "consistent s"
  shows "blocks s (next_block s) = None"
    and "card (holders control_block (shared s) (next_block s)) = 0"
    and "card (holders observe_cb (weak s) (next_block s)) = 0"
    and "teardowns s (next_block s) = 0" and "releases s (next_block s) = 0"
  using consistentD(3) [OF assms, of "next_block s"]
  by (auto simp add: block_ok_def split: option.splits)

lemma allocate_consistent:
  fixes s :: "'w::len state"
  assumes con: "consistent s"
    and free: "\<And>q. shared s h = Some q \<Longrightarrow> control_block q = None"
    and p: "control_block p = Some (next_block s)"
  shows "consistent (s\<lparr>blocks := (blocks s)(next_block s \<mapsto> new_block v),
                       next_block := Suc (next_block s),
                       shared := (shared s)(h \<mapsto> p)\<rparr>)"
    (is "consistent ?s'")
proof (rule consistentI)
  note d = consistentD [OF con]
  note u = next_block_unused [OF con]
  have absent: "h \<notin> holders control_block (shared s) c" for c
    using free by (auto simp add: holders_iff)
  fix c
  show "block_ok ?s' c (card (holders control_block (shared ?s') c))
          (card (holders observe_cb (weak ?s') c))"
  proof (cases "c = next_block s")
    case True
    with d(1) u p show ?thesis
      by (simp add: card_holders_put absent block_ok_def new_block_def)
  next
    case False
    with d p show ?thesis
      by (simp add: card_holders_put absent block_ok_allocate_other)
  qed
qed (use consistentD [OF con] in simp_all)

text \<open>Handles always point at blocks that are on the heap.\<close>

lemma strong_owner_live:
  assumes "consistent s" and "shared s h = Some q" and "control_block q = Some b"
  shows "\<exists>cb. blocks s b = Some cb \<and> ref_count cb \<noteq> 0"
proof -
  note d = consistentD [OF assms(1)]
  have "0 < card (holders control_block (shared s) b)"
    using d(1) assms(2,3) by (rule card_holders_pos)
  with d(3) [of b] show ?thesis
    by (cases "blocks s b") (auto simp add: block_ok_def)
qed

lemma weak_owner_live:
  assumes "consistent s" and "weak s h = Some q" and "observe_cb q = Some b"
  shows "\<exists>cb. blocks s b = Some cb"
proof -
  note d = consistentD [OF assms(1)]
  have "0 < card (holders observe_cb (weak s) b)"
    using d(2) assms(2,3) by (rule card_holders_pos)
  with d(3) [of b] show ?thesis
    by (cases "blocks s b") (auto simp add: block_ok_def)
qed

lemma counted_owner_exists:
  assumes "consistent s" and "blocks s b = Some cb" and "ref_count cb \<noteq> 0"
  shows "\<exists>g q. shared s g = Some q \<and> control_block q = Some b"
proof -
  note d = consistentD [OF assms(1)]
  from assms(3) have "0 < unat (ref_count cb)" by (simp add: unat_gt_0)
  with d(3) [of b] assms(2) have "0 < card (holders control_block (shared s) b)"
    by (simp add: block_ok_def)
  then have "holders control_block (shared s) b \<noteq> {}" by auto
  then show ?thesis by (auto simp add: holders_iff)
qed

section \<open>Every operation keeps the state in order\<close>

lemma holders_put_iff:
  "g \<in> holders f (m(h \<mapsto> p)) b \<longleftrightarrow> (if g = h then f p = Some b else g \<in> holders f m b)"
  by (auto simp add: holders_def)

lemma holders_at:
  "m h = Some q \<Longrightarrow> h \<in> holders f m b \<longleftrightarrow> f q = Some b"
  "m h = None \<Longrightarrow> h \<in> holders f m b \<longleftrightarrow> False"
  by (auto simp add: holders_def)

text \<open>
  A block never has \<open>2 ^ w - 1\<close> or more owners besides a given handle: there are not that
  many addresses.
\<close>

lemma holders_small:
  assumes "dom m \<subseteq> {0<..<2 ^ LENGTH('w::len)}" and "0 < h" and "h < 2 ^ LENGTH('w)"
    and "h \<notin> holders f m b"
  shows "Suc (card (holders f m b)) < 2 ^ LENGTH('w)"
proof -
  let ?A = "{0<..<2 ^ LENGTH('w)} :: nat set"
  have sub: "holders f m b \<subseteq> ?A - {h}"
    using assms(1,4) holders_subset [of f m b] by auto
  have "card (?A - {h}) = card ?A - 1"
    using assms(2,3) by (simp add: card_Diff_singleton)
  then have "card (?A - {h}) = 2 ^ LENGTH('w) - 2" by simp
  moreover have "card (holders f m b) \<le> card (?A - {h})"
    using sub by (intro card_mono) simp_all
  moreover have "(2 :: nat) \<le> 2 ^ LENGTH('w)"
    using self_le_power [of 2 "LENGTH('w)"] by simp
  ultimately show ?thesis by linarith
qed

lemma in_memory_shared:
  fixes s :: "'w::len state"
  assumes "in_memory s" and "shared s h = Some p"
  shows "0 < h" and "h < 2 ^ LENGTH('w)"
  using assms by (auto simp add: in_memory_def dom_def)

lemma in_memory_weak:
  fixes s :: "'w::len state"
  assumes "in_memory s" and "weak s h = Some p"
  shows "0 < h" and "h < 2 ^ LENGTH('w)"
  using assms by (auto simp add: in_memory_def dom_def)

lemma in_memoryD:
  fixes s :: "'w::len state"
  assumes "in_memory s"
  shows "dom (shared s) \<subseteq> {0<..<2 ^ LENGTH('w)}" and "dom (weak s) \<subseteq> {0<..<2 ^ LENGTH('w)}"
  using assms by (simp_all add: in_memory_def)

lemma diff_in_memory: "A \<subseteq> C \<Longrightarrow> A - B \<subseteq> C"
  by auto

lemma safe_step_same: "consistent s \<Longrightarrow> in_memory s \<Longrightarrow> safe_step s (Inr s)"
  by (simp add: safe_step_def)

lemma safe_step_error [simp]:
  "safe_step s (Inl InvalidHandle)" "safe_step s (Inl BadWeakPtr)"
  by (simp_all add: safe_step_def)

lemma safe_step_cong:
  "in_memory s' = in_memory s \<Longrightarrow> safe_step s' r = safe_step s r"
  by (simp add: safe_step_def split: sum.splits)

lemma SharedPtr_default_safe:
  fixes s :: "'w::len state"
  assumes "consistent s" and "in_memory s" and "0 < h" and "h < 2 ^ LENGTH('w)"
  shows "safe_step s (SharedPtr_default h s)"
proof (cases "shared s h")
  case None
  note d = consistentD [OF assms(1)]
  note m = in_memoryD [OF assms(2)]
  have "consistent (s\<lparr>shared := (shared s)(h \<mapsto> empty_shared)\<rparr>)"
    using assms(1) d None
    by (intro consistent_reshuffle)
       (simp_all add: card_holders_put holders_at empty_shared_def)
  then show ?thesis
    using None m assms(3,4)
    by (simp add: SharedPtr_default_def set_shared_def safe_step_def in_memory_def)
next
  case (Some t)
  then show ?thesis by (simp add: SharedPtr_default_def)
qed

lemma SharedPtr_from_ptr_safe:
  fixes s :: "'w::len state"
  assumes "consistent s" and "in_memory s" and "0 < h" and "h < 2 ^ LENGTH('w)"
  shows "safe_step s (SharedPtr_from_ptr h ptr s)"
proof (cases "shared s h")
  case None
  note m = in_memoryD [OF assms(2)]
  have "consistent (s\<lparr>blocks := (blocks s)(next_block s \<mapsto> new_block (PtrControlBlock ptr)),
                       next_block := Suc (next_block s),
                       shared := (shared s)(h \<mapsto> \<lparr>data_ptr = ptr, control_block = Some (next_block s)\<rparr>)\<rparr>)"
    using assms(1) None by (intro allocate_consistent) simp_all
  then show ?thesis
    using None m assms(3,4)
    by (simp add: SharedPtr_from_ptr_def allocate_def set_shared_def safe_step_def
        in_memory_def)
next
  case (Some t)
  then show ?thesis by (simp add: SharedPtr_from_ptr_def)
qed

lemma MakeShared_safe:
  fixes s :: "'w::len state"
  assumes "consistent s" and "in_memory s" and "0 < h" and "h < 2 ^ LENGTH('w)"
  shows "safe_step s (MakeShared h s)"
proof (cases "shared s h")
  case None
  note m = in_memoryD [OF assms(2)]
  have "consistent (s\<lparr>blocks := (blocks s)(next_block s \<mapsto> new_block ObjectControlBlock),
                       next_block := Suc (next_block s),
                       shared := (shared s)(h \<mapsto> \<lparr>data_ptr = GetDataPtr (next_block s),
                                                    control_block = Some (next_block s)\<rparr>)\<rparr>)"
    using assms(1) None by (intro allocate_consistent) simp_all
  then show ?thesis
    using None m assms(3,4)
    by (simp add: MakeShared_def SharedPtr_from_pair_def allocate_def set_shared_def
        safe_step_def in_memory_def)
next
  case (Some t)
  then show ?thesis
    by (simp add: MakeShared_def SharedPtr_from_pair_def allocate_def)
qed

text \<open>The tail of the copying operations: store the pair, then count it.\<close>

lemma share_into_safe:
  fixes s :: "'w::len state"
  assumes con: "consistent s" and mem: "in_memory s"
    and h: "0 < h" "h < 2 ^ LENGTH('w)"
    and free: "\<And>q. shared s h = Some q \<Longrightarrow> control_block q = None"
    and g: "shared s g = Some ot"
    and p: "control_block p = control_block ot"
  shows "safe_step s (case control_block ot of
                        None \<Rightarrow> Inr (set_shared h p s)
                      | Some b \<Rightarrow> IncrementStrong b (set_shared h p s))"
proof -
  note d = consistentD [OF con]
  note m = in_memoryD [OF mem]
  have absent: "h \<notin> holders control_block (shared s) c" for c
    using free by (auto simp add: holders_iff)
  show ?thesis
  proof (cases "control_block ot")
    case None
    have "consistent (s\<lparr>shared := (shared s)(h \<mapsto> p)\<rparr>)"
      using con d None p
      by (intro consistent_reshuffle) (simp_all add: card_holders_put absent)
    then show ?thesis
      using None m h by (simp add: set_shared_def safe_step_def in_memory_def)
  next
    case (Some b)
    from p Some have pb: "control_block p = Some b" by simp
    have small: "Suc (card (holders control_block (shared s) b)) < 2 ^ LENGTH('w)"
      using m(1) h absent by (rule holders_small)
    from acquire_strong [OF con free g Some small pb] obtain s1 where s1:
      "shared s1 = shared s" "weak s1 = weak s"
      "\<And>x. IncrementStrong b (s\<lparr>shared := x\<rparr>) = Inr (s1\<lparr>shared := x\<rparr>)"
      "consistent (s1\<lparr>shared := (shared s)(h \<mapsto> p)\<rparr>)"
      by blast
    then show ?thesis
      using Some m h by (simp add: set_shared_def safe_step_def in_memory_def)
  qed
qed

text \<open>The head of the operations that give up a block.\<close>

lemma drop_strong_step:
  fixes s :: "'w::len state"
  assumes con: "consistent s" and t: "shared s h = Some t"
  shows "\<exists>s1. drop_strong plain_payload (control_block t) s = Inr s1
           \<and> shared s1 = shared s \<and> weak s1 = weak s
           \<and> (\<forall>p. control_block p = None \<longrightarrow> consistent (s1\<lparr>shared := (shared s)(h \<mapsto> p)\<rparr>))
           \<and> consistent (s1\<lparr>shared := (shared s)(h := None)\<rparr>)"
proof (cases "control_block t")
  case None
  note d = consistentD [OF con]
  have absent: "h \<notin> holders control_block (shared s) c" for c
    using t None by (simp add: holders_at)
  have "consistent (s\<lparr>shared := (shared s)(h \<mapsto> p)\<rparr>)" if "control_block p = None" for p
    using con d that
    by (intro consistent_reshuffle) (simp_all add: card_holders_put absent)
  moreover have "consistent (s\<lparr>shared := (shared s)(h := None)\<rparr>)"
    using con d
    by (intro consistent_reshuffle) (simp_all add: card_holders_remove absent)
  ultimately show ?thesis
    using None by (simp add: drop_strong_def)
next
  case (Some b)
  from release_strong [OF con t Some] show ?thesis
    using Some by (simp add: drop_strong_def)
qed

lemma SharedPtr_copy_safe:
  fixes s :: "'w::len state"
  assumes "consistent s" and "in_memory s" and "0 < h" and "h < 2 ^ LENGTH('w)"
  shows "safe_step s (SharedPtr_copy h g s)"
proof (cases "shared s h")
  case None
  show ?thesis
  proof (cases "shared s g")
    case (Some ot)
    from share_into_safe [OF assms _ Some, of
        "\<lparr>data_ptr = data_ptr ot, control_block = control_block ot\<rparr>"]
    show ?thesis
      using None Some by (simp add: SharedPtr_copy_def Let_def)
  qed (use None in \<open>simp add: SharedPtr_copy_def\<close>)
qed (simp add: SharedPtr_copy_def)

lemma SharedPtr_alias_safe:
  fixes s :: "'w::len state"
  assumes "consistent s" and "in_memory s" and "0 < h" and "h < 2 ^ LENGTH('w)"
  shows "safe_step s (SharedPtr_alias h g ptr s)"
proof (cases "shared s h")
  case None
  show ?thesis
  proof (cases "shared s g")
    case (Some ot)
    from share_into_safe [OF assms _ Some, of
        "\<lparr>data_ptr = ptr, control_block = control_block ot\<rparr>"]
    show ?thesis
      using None Some by (simp add: SharedPtr_alias_def Let_def)
  qed (use None in \<open>simp add: SharedPtr_alias_def\<close>)
qed (simp add: SharedPtr_alias_def)

lemma SharedPtr_dtor_safe:
  fixes s :: "'w::len state"
  assumes "consistent s" and "in_memory s"
  shows "safe_step s (SharedPtr_dtor plain_payload h s)"
proof (cases "shared s h")
  case (Some t)
  note m = in_memoryD [OF assms(2)]
  from drop_strong_step [OF assms(1) Some] obtain s1 where
    "drop_strong plain_payload (control_block t) s = Inr s1"
    "shared s1 = shared s" "weak s1 = weak s"
    "consistent (s1\<lparr>shared := (shared s)(h := None)\<rparr>)"
    by blast
  then show ?thesis
    using Some m
    by (simp add: SharedPtr_dtor_def safe_step_def in_memory_def diff_in_memory)
qed (simp add: SharedPtr_dtor_def)

lemma SharedPtr_Reset_safe:
  fixes s :: "'w::len state"
  assumes "consistent s" and "in_memory s"
  shows "safe_step s (SharedPtr_Reset plain_payload h s)"
proof (cases "shared s h")
  case (Some t)
  note m = in_memoryD [OF assms(2)]
  note a = in_memory_shared [OF assms(2) Some]
  from drop_strong_step [OF assms(1) Some] obtain s1 where
    "drop_strong plain_payload (control_block t) s = Inr s1"
    "shared s1 = shared s" "weak s1 = weak s"
    "consistent (s1\<lparr>shared := (shared s)(h \<mapsto> empty_shared)\<rparr>)"
    by (auto simp add: empty_shared_def)
  then show ?thesis
    using Some m a
    by (simp add: SharedPtr_Reset_def set_shared_def safe_step_def in_memory_def)
qed (simp add: SharedPtr_Reset_def)

lemma SharedPtr_move_safe:
  fixes s :: "'w::len state"
  assumes "consistent s" and "in_memory s" and "0 < h" and "h < 2 ^ LENGTH('w)"
  shows "safe_step s (SharedPtr_move h g s)"
proof (cases "shared s h")
  case None
  show ?thesis
  proof (cases "shared s g")
    case (Some ot)
    note d = consistentD [OF assms(1)]
    note m = in_memoryD [OF assms(2)]
    note a = in_memory_shared [OF assms(2) Some]
    from None Some have ne: "g \<noteq> h" by auto
    have "consistent (s\<lparr>shared := (shared s)
             (h \<mapsto> \<lparr>data_ptr = data_ptr ot, control_block = control_block ot\<rparr>,
              g \<mapsto> empty_shared)\<rparr>)"
      using assms(1) d None Some ne
      by (intro consistent_reshuffle)
         (auto simp add: card_holders_put holders_put_iff holders_at empty_shared_def)
    then show ?thesis
      using None Some m a assms(3,4)
      by (simp add: SharedPtr_move_def set_shared_def safe_step_def in_memory_def)
  qed (use None in \<open>simp add: SharedPtr_move_def\<close>)
qed (simp add: SharedPtr_move_def)

lemma SharedPtr_Swap_safe:
  fixes s :: "'w::len state"
  assumes "consistent s" and "in_memory s"
  shows "safe_step s (SharedPtr_Swap h g s)"
proof (cases "shared s h")
  case (Some t)
  show ?thesis
  proof (cases "shared s g")
    case other: (Some ot)
    note d = consistentD [OF assms(1)]
    note m = in_memoryD [OF assms(2)]
    note a = in_memory_shared [OF assms(2) Some] in_memory_shared [OF assms(2) other]
    have "consistent (s\<lparr>shared := (shared s)(h \<mapsto> ot, g \<mapsto> t)\<rparr>)"
      using assms(1) d Some other
      by (intro consistent_reshuffle)
         (auto simp add: card_holders_put holders_put_iff holders_at
            dest: card_holders_pos [OF d(1)])
    then show ?thesis
      using Some other m a
      by (simp add: SharedPtr_Swap_def set_shared_def safe_step_def in_memory_def)
  qed (use Some in \<open>simp add: SharedPtr_Swap_def\<close>)
qed (simp add: SharedPtr_Swap_def)

lemma promote_step:
  fixes s :: "'w::len state"
  assumes con: "consistent s" and mem: "in_memory s"
    and h: "0 < h" "h < 2 ^ LENGTH('w)" and free: "shared s h = None"
    and cb: "blocks s b = Some cb" "ref_count cb \<noteq> 0" and p: "control_block p = Some b"
  shows "\<exists>s1. IncrementStrong b s = Inr s1 \<and> shared s1 = shared s \<and> weak s1 = weak s
           \<and> (\<forall>x. IncrementStrong b (s\<lparr>shared := x\<rparr>) = Inr (s1\<lparr>shared := x\<rparr>))
           \<and> consistent (s1\<lparr>shared := (shared s)(h \<mapsto> p)\<rparr>)
           \<and> in_memory (s1\<lparr>shared := (shared s)(h \<mapsto> p)\<rparr>)"
proof -
  note m = in_memoryD [OF mem]
  from counted_owner_exists [OF con cb] obtain f q where
    f: "shared s f = Some q" "control_block q = Some b" by blast
  have absent: "h \<notin> holders control_block (shared s) b"
    using free by (simp add: holders_at)
  have small: "Suc (card (holders control_block (shared s) b)) < 2 ^ LENGTH('w)"
    using m(1) h absent by (rule holders_small)
  from acquire_strong [OF con _ f small p, of h] free obtain s1 where s1:
    "IncrementStrong b s = Inr s1" "shared s1 = shared s" "weak s1 = weak s"
    "\<And>x. IncrementStrong b (s\<lparr>shared := x\<rparr>) = Inr (s1\<lparr>shared := x\<rparr>)"
    "consistent (s1\<lparr>shared := (shared s)(h \<mapsto> p)\<rparr>)"
    by auto
  moreover have "in_memory (s1\<lparr>shared := (shared s)(h \<mapsto> p)\<rparr>)"
    using s1(3) m h by (simp add: in_memory_def)
  ultimately show ?thesis by blast
qed

lemma SharedPtr_promote_safe:
  fixes s :: "'w::len state"
  assumes "consistent s" and "in_memory s" and "0 < h" and "h < 2 ^ LENGTH('w)"
  shows "safe_step s (SharedPtr_promote h g s)"
proof (cases "shared s h")
  case None
  show ?thesis
  proof (cases "weak s g")
    case (Some ot)
    show ?thesis
    proof (cases "observe_cb ot")
      case block: (Some b)
      from weak_owner_live [OF assms(1) Some block] obtain cb where cb: "blocks s b = Some cb"
        by blast
      show ?thesis
      proof (cases "ref_count cb = 0")
        case False
        from promote_step [OF assms None cb False, of
            "\<lparr>data_ptr = observe_data_ptr ot, control_block = observe_cb ot\<rparr>"] block
        obtain s1 where
          "\<And>x. IncrementStrong b (s\<lparr>shared := x\<rparr>) = Inr (s1\<lparr>shared := x\<rparr>)"
          "consistent (s1\<lparr>shared := (shared s)
              (h \<mapsto> \<lparr>data_ptr = observe_data_ptr ot, control_block = observe_cb ot\<rparr>)\<rparr>)"
          "in_memory (s1\<lparr>shared := (shared s)
              (h \<mapsto> \<lparr>data_ptr = observe_data_ptr ot, control_block = observe_cb ot\<rparr>)\<rparr>)"
          by auto
        then show ?thesis
          using None Some block cb False
          by (simp add: SharedPtr_promote_def GetCount_def set_shared_def safe_step_def)
      qed (use None Some block cb in \<open>simp add: SharedPtr_promote_def GetCount_def\<close>)
    qed (use None Some in \<open>simp add: SharedPtr_promote_def\<close>)
  qed (use None in \<open>simp add: SharedPtr_promote_def\<close>)
qed (simp add: SharedPtr_promote_def)

lemma Lock_safe:
  fixes s :: "'w::len state"
  assumes "consistent s" and "in_memory s" and "0 < h" and "h < 2 ^ LENGTH('w)"
  shows "safe_step s (Lock h g s)"
proof (cases "weak s g")
  case (Some ot)
  show ?thesis
  proof (cases "observe_cb ot")
    case None
    with Some SharedPtr_default_safe [OF assms] show ?thesis
      by (simp add: Lock_def)
  next
    case block: (Some b)
    from weak_owner_live [OF assms(1) Some block] obtain cb where cb: "blocks s b = Some cb"
      by blast
    show ?thesis
    proof (cases "ref_count cb = 0")
      case True
      with Some block cb SharedPtr_default_safe [OF assms] show ?thesis
        by (simp add: Lock_def GetCount_def)
    next
      case False
      show ?thesis
      proof (cases "shared s h")
        case None
        from promote_step [OF assms None cb False, of
            "\<lparr>data_ptr = observe_data_ptr ot, control_block = observe_cb ot\<rparr>"] block
        obtain s1 where
          "IncrementStrong b s = Inr s1" "shared s1 = shared s"
          "consistent (s1\<lparr>shared := (shared s)
              (h \<mapsto> \<lparr>data_ptr = observe_data_ptr ot, control_block = observe_cb ot\<rparr>)\<rparr>)"
          "in_memory (s1\<lparr>shared := (shared s)
              (h \<mapsto> \<lparr>data_ptr = observe_data_ptr ot, control_block = observe_cb ot\<rparr>)\<rparr>)"
          by auto
        then show ?thesis
          using None Some block cb False
          by (simp add: Lock_def GetCount_def SharedPtr_from_pair_def set_shared_def
              safe_step_def word_greater_zero_iff)
      next
        case (Some t)
        from cb obtain s1 where s1: "IncrementStrong b s = Inr s1" "shared s1 = shared s"
          by (simp add: IncrementStrong_def)
        with Some \<open>weak s g = Some ot\<close> block cb False show ?thesis
          by (simp add: Lock_def GetCount_def SharedPtr_from_pair_def word_greater_zero_iff)
      qed
    qed
  qed
qed (simp add: Lock_def)

lemma SharedPtr_copy_assign_safe:
  fixes s :: "'w::len state"
  assumes "consistent s" and "in_memory s"
  shows "safe_step s (SharedPtr_copy_assign plain_payload h g s)"
proof (cases "shared s h")
  case (Some t)
  show ?thesis
  proof (cases "shared s g")
    case other: (Some ot)
    show ?thesis
    proof (cases "g = h")
      case True
      with Some assms show ?thesis
        by (simp add: SharedPtr_copy_assign_def safe_step_same)
    next
      case False
      note a = in_memory_shared [OF assms(2) Some]
      let ?p = "\<lparr>data_ptr = data_ptr ot, control_block = control_block ot\<rparr>"
      from drop_strong_step [OF assms(1) Some] obtain s1 where s1:
        "drop_strong plain_payload (control_block t) s = Inr s1"
        "shared s1 = shared s" "weak s1 = weak s"
        "consistent (s1\<lparr>shared := (shared s)(h \<mapsto> empty_shared)\<rparr>)"
        by (auto simp add: empty_shared_def)
      let ?e = "s1\<lparr>shared := (shared s)(h \<mapsto> empty_shared)\<rparr>"
      have mem_e: "in_memory ?e"
        using assms(2) s1(3) a by (simp add: in_memory_def)
      have free: "control_block q = None" if "shared ?e h = Some q" for q
        using that by (auto simp add: empty_shared_def)
      have g_e: "shared ?e g = Some ot" using other False by simp
      have "safe_step ?e (case control_block ot of
                            None \<Rightarrow> Inr (set_shared h ?p ?e)
                          | Some b \<Rightarrow> IncrementStrong b (set_shared h ?p ?e))"
      proof (rule share_into_safe [OF s1(4) mem_e a _ g_e])
        show "control_block ?p = control_block ot" by simp
        show "control_block q = None" if "shared ?e h = Some q" for q
          using that by (rule free)
      qed
      moreover have "set_shared h ?p ?e = set_shared h ?p s1"
        using s1(2) by (simp add: set_shared_def)
      moreover have "safe_step ?e r = safe_step s r" for r
        using mem_e assms(2) by (intro safe_step_cong) simp
      ultimately have "safe_step s (case control_block ot of
                            None \<Rightarrow> Inr (set_shared h ?p s1)
                          | Some b \<Rightarrow> IncrementStrong b (set_shared h ?p s1))"
        by (cases "control_block ot") simp_all
      then show ?thesis
        using Some other False s1(1,2)
        by (simp add: SharedPtr_copy_assign_def Let_def)
    qed
  qed (use Some in \<open>simp add: SharedPtr_copy_assign_def\<close>)
qed (simp add: SharedPtr_copy_assign_def)

lemma SharedPtr_move_assign_safe:
  fixes s :: "'w::len state"
  assumes "consistent s" and "in_memory s"
  shows "safe_step s (SharedPtr_move_assign plain_payload h g s)"
proof (cases "shared s h")
  case (Some t)
  show ?thesis
  proof (cases "shared s g")
    case other: (Some ot)
    show ?thesis
    proof (cases "g = h")
      case True
      with Some assms show ?thesis
        by (simp add: SharedPtr_move_assign_def safe_step_same)
    next
      case False
      note d = consistentD [OF assms(1)]
      note m = in_memoryD [OF assms(2)]
      note a = in_memory_shared [OF assms(2) Some] in_memory_shared [OF assms(2) other]
      let ?p = "\<lparr>data_ptr = data_ptr ot, control_block = control_block ot\<rparr>"
      from drop_strong_step [OF assms(1) Some] obtain s1 where s1:
        "drop_strong plain_payload (control_block t) s = Inr s1"
        "shared s1 = shared s" "weak s1 = weak s"
        "consistent (s1\<lparr>shared := (shared s)(h \<mapsto> empty_shared)\<rparr>)"
        by (auto simp add: empty_shared_def)
      let ?e = "s1\<lparr>shared := (shared s)(h \<mapsto> empty_shared)\<rparr>"
      note de = consistentD [OF s1(4)]
      have "consistent (?e\<lparr>shared := (shared s)(h \<mapsto> ?p, g \<mapsto> empty_shared)\<rparr>)"
        using s1(4) de(1) d(1) other False
        by (intro consistent_reshuffle [where s = ?e])
           (auto simp add: card_holders_put holders_put_iff holders_at empty_shared_def)
      then have "consistent (s1\<lparr>shared := (shared s)(h \<mapsto> ?p, g \<mapsto> empty_shared)\<rparr>)"
        by simp
      then show ?thesis
        using Some other False s1(1-3) m a
        by (simp add: SharedPtr_move_assign_def set_shared_def safe_step_def in_memory_def)
    qed
  qed (use Some in \<open>simp add: SharedPtr_move_assign_def\<close>)
qed (simp add: SharedPtr_move_assign_def)

lemma SharedPtr_Reset_ptr_safe:
  fixes s :: "'w::len state"
  assumes "consistent s" and "in_memory s"
  shows "safe_step s (SharedPtr_Reset_ptr plain_payload h ptr s)"
proof (cases "shared s h")
  case (Some t)
  show ?thesis
  proof (cases "data_ptr t = ptr")
    case True
    with Some assms show ?thesis
      by (simp add: SharedPtr_Reset_ptr_def safe_step_same)
  next
    case False
    note m = in_memoryD [OF assms(2)]
    note a = in_memory_shared [OF assms(2) Some]
    from drop_strong_step [OF assms(1) Some] obtain s1 where s1:
      "drop_strong plain_payload (control_block t) s = Inr s1"
      "shared s1 = shared s" "weak s1 = weak s"
      "consistent (s1\<lparr>shared := (shared s)(h \<mapsto> empty_shared)\<rparr>)"
      by (auto simp add: empty_shared_def)
    let ?e = "s1\<lparr>shared := (shared s)(h \<mapsto> empty_shared)\<rparr>"
    show ?thesis
    proof (cases ptr)
      case None
      with Some False s1 m a show ?thesis
        by (auto simp add: SharedPtr_Reset_ptr_def set_shared_def safe_step_def in_memory_def)
    next
      case ptr: (Some x)
      let ?p = "\<lparr>data_ptr = ptr, control_block = Some (next_block s1)\<rparr>"
      have "consistent (?e\<lparr>blocks := (blocks ?e)(next_block ?e \<mapsto> new_block (PtrControlBlock ptr)),
                          next_block := Suc (next_block ?e),
                          shared := (shared ?e)(h \<mapsto> ?p)\<rparr>)"
        using s1(4) by (intro allocate_consistent) (auto simp add: empty_shared_def)
      then have "consistent (s1\<lparr>blocks := (blocks s1)(next_block s1 \<mapsto> new_block (PtrControlBlock ptr)),
                          next_block := Suc (next_block s1),
                          shared := (shared s)(h \<mapsto> ?p)\<rparr>)"
        by simp
      with Some False s1(1-3) m a ptr show ?thesis
        by (auto simp add: SharedPtr_Reset_ptr_def allocate_def set_shared_def safe_step_def
            in_memory_def)
    qed
  qed
qed (simp add: SharedPtr_Reset_ptr_def)

section \<open>The operations on weak handles keep the state in order\<close>

lemma share_into_weak_safe:
  fixes s :: "'w::len state"
  assumes con: "consistent s" and mem: "in_memory s"
    and h: "0 < h" "h < 2 ^ LENGTH('w)"
    and free: "\<And>q. weak s h = Some q \<Longrightarrow> observe_cb q = None"
    and live: "\<And>b. cb = Some b \<Longrightarrow>
                 0 < card (holders control_block (shared s) b)
                       + card (holders observe_cb (weak s) b)"
    and p: "observe_cb p = cb"
  shows "safe_step s (case cb of
                        None \<Rightarrow> Inr (set_weak h p s)
                      | Some b \<Rightarrow> IncrementWeak b (set_weak h p s))"
proof (cases cb)
  case None
  note d = consistentD [OF con]
  note m = in_memoryD [OF mem]
  have absent: "h \<notin> holders observe_cb (weak s) c" for c
    using free by (auto simp add: holders_iff)
  have "consistent (s\<lparr>weak := (weak s)(h \<mapsto> p)\<rparr>)"
    using con d None p
    by (intro consistent_reshuffle_weak) (simp_all add: card_holders_put absent)
  then show ?thesis
    using None m h by (simp add: set_weak_def safe_step_def in_memory_def)
next
  case (Some b)
  note m = in_memoryD [OF mem]
  from p Some have pb: "observe_cb p = Some b" by simp
  have absent: "h \<notin> holders observe_cb (weak s) b"
    using free by (auto simp add: holders_iff)
  have small: "Suc (card (holders observe_cb (weak s) b)) < 2 ^ LENGTH('w)"
    using m(2) h absent by (rule holders_small)
  from acquire_weak [OF con free live [OF Some] small pb] obtain s1 where s1:
    "shared s1 = shared s" "weak s1 = weak s"
    "\<And>x. IncrementWeak b (s\<lparr>weak := x\<rparr>) = Inr (s1\<lparr>weak := x\<rparr>)"
    "consistent (s1\<lparr>weak := (weak s)(h \<mapsto> p)\<rparr>)"
    by blast
  then show ?thesis
    using Some m h by (simp add: set_weak_def safe_step_def in_memory_def)
qed

lemma drop_weak_step:
  fixes s :: "'w::len state"
  assumes con: "consistent s" and t: "weak s h = Some t"
  shows "\<exists>s1. drop_weak (observe_cb t) s = Inr s1
           \<and> shared s1 = shared s \<and> weak s1 = weak s
           \<and> (\<forall>p. observe_cb p = None \<longrightarrow> consistent (s1\<lparr>weak := (weak s)(h \<mapsto> p)\<rparr>))
           \<and> consistent (s1\<lparr>weak := (weak s)(h := None)\<rparr>)"
proof (cases "observe_cb t")
  case None
  note d = consistentD [OF con]
  have absent: "h \<notin> holders observe_cb (weak s) c" for c
    using t None by (simp add: holders_at)
  have "consistent (s\<lparr>weak := (weak s)(h \<mapsto> p)\<rparr>)" if "observe_cb p = None" for p
    using con d that
    by (intro consistent_reshuffle_weak) (simp_all add: card_holders_put absent)
  moreover have "consistent (s\<lparr>weak := (weak s)(h := None)\<rparr>)"
    using con d
    by (intro consistent_reshuffle_weak) (simp_all add: card_holders_remove absent)
  ultimately show ?thesis
    using None by (simp add: drop_weak_def)
next
  case (Some b)
  from release_weak [OF con t Some] show ?thesis
    using Some by (simp add: drop_weak_def)
qed

lemma WeakPtr_default_safe:
  fixes s :: "'w::len state"
  assumes "consistent s" and "in_memory s" and "0 < h" and "h < 2 ^ LENGTH('w)"
  shows "safe_step s (WeakPtr_default h s)"
proof (cases "weak s h")
  case None
  have "safe_step s (case None of
                       None \<Rightarrow> Inr (set_weak h empty_weak s)
                     | Some b \<Rightarrow> IncrementWeak b (set_weak h empty_weak s))"
    using assms None by (intro share_into_weak_safe) (simp_all add: empty_weak_def)
  then show ?thesis
    using None by (simp add: WeakPtr_default_def)
qed (simp add: WeakPtr_default_def)

lemma WeakPtr_copy_safe:
  fixes s :: "'w::len state"
  assumes "consistent s" and "in_memory s" and "0 < h" and "h < 2 ^ LENGTH('w)"
  shows "safe_step s (WeakPtr_copy h g s)"
proof (cases "weak s h")
  case None
  show ?thesis
  proof (cases "weak s g")
    case (Some ot)
    note d = consistentD [OF assms(1)]
    have "safe_step s (case observe_cb ot of
                         None \<Rightarrow> Inr (set_weak h
                           \<lparr>observe_data_ptr = observe_data_ptr ot, observe_cb = observe_cb ot\<rparr> s)
                       | Some b \<Rightarrow> IncrementWeak b (set_weak h
                           \<lparr>observe_data_ptr = observe_data_ptr ot, observe_cb = observe_cb ot\<rparr> s))"
      using assms None card_holders_pos [OF d(2) Some]
      by (intro share_into_weak_safe) simp_all
    then show ?thesis
      using None Some by (simp add: WeakPtr_copy_def Let_def)
  qed (use None in \<open>simp add: WeakPtr_copy_def\<close>)
qed (simp add: WeakPtr_copy_def)

lemma WeakPtr_from_shared_safe:
  fixes s :: "'w::len state"
  assumes "consistent s" and "in_memory s" and "0 < h" and "h < 2 ^ LENGTH('w)"
  shows "safe_step s (WeakPtr_from_shared h g s)"
proof (cases "weak s h")
  case None
  show ?thesis
  proof (cases "shared s g")
    case (Some ot)
    note d = consistentD [OF assms(1)]
    have "safe_step s (case control_block ot of
                         None \<Rightarrow> Inr (set_weak h
                           \<lparr>observe_data_ptr = data_ptr ot, observe_cb = control_block ot\<rparr> s)
                       | Some b \<Rightarrow> IncrementWeak b (set_weak h
                           \<lparr>observe_data_ptr = data_ptr ot, observe_cb = control_block ot\<rparr> s))"
      using assms None card_holders_pos [OF d(1) Some]
      by (intro share_into_weak_safe) simp_all
    then show ?thesis
      using None Some by (simp add: WeakPtr_from_shared_def Let_def)
  qed (use None in \<open>simp add: WeakPtr_from_shared_def\<close>)
qed (simp add: WeakPtr_from_shared_def)

lemma WeakPtr_dtor_safe:
  fixes s :: "'w::len state"
  assumes "consistent s" and "in_memory s"
  shows "safe_step s (WeakPtr_dtor h s)"
proof (cases "weak s h")
  case (Some t)
  note d = in_memoryD [OF assms(2)]
  from drop_weak_step [OF assms(1) Some] obtain s1 where
    "drop_weak (observe_cb t) s = Inr s1"
    "shared s1 = shared s" "weak s1 = weak s"
    "consistent (s1\<lparr>weak := (weak s)(h := None)\<rparr>)"
    by blast
  then show ?thesis
    using Some d
    by (simp add: WeakPtr_dtor_def safe_step_def in_memory_def diff_in_memory)
qed (simp add: WeakPtr_dtor_def)

lemma WeakPtr_Reset_safe:
  fixes s :: "'w::len state"
  assumes "consistent s" and "in_memory s"
  shows "safe_step s (WeakPtr_Reset h s)"
proof (cases "weak s h")
  case (Some t)
  note d = in_memoryD [OF assms(2)] in_memory_weak [OF assms(2) Some]
  from drop_weak_step [OF assms(1) Some] obtain s1 where
    "drop_weak (observe_cb t) s = Inr s1"
    "shared s1 = shared s" "weak s1 = weak s"
    "consistent (s1\<lparr>weak := (weak s)(h \<mapsto> empty_weak)\<rparr>)"
    by (auto simp add: empty_weak_def)
  then show ?thesis
    using Some d
    by (simp add: WeakPtr_Reset_def set_weak_def safe_step_def in_memory_def)
qed (simp add: WeakPtr_Reset_def)

lemma WeakPtr_move_safe:
  fixes s :: "'w::len state"
  assumes "consistent s" and "in_memory s" and "0 < h" and "h < 2 ^ LENGTH('w)"
  shows "safe_step s (WeakPtr_move h g s)"
proof (cases "weak s h")
  case None
  show ?thesis
  proof (cases "weak s g")
    case (Some ot)
    note d = consistentD [OF assms(1)]
    note m = in_memoryD [OF assms(2)] in_memory_weak [OF assms(2) Some] assms(3,4)
    from None Some have ne: "g \<noteq> h" by auto
    have "consistent (s\<lparr>weak := (weak s)
             (h \<mapsto> \<lparr>observe_data_ptr = observe_data_ptr ot, observe_cb = observe_cb ot\<rparr>,
              g \<mapsto> empty_weak)\<rparr>)"
      using assms(1) d None Some ne
      by (intro consistent_reshuffle_weak)
         (auto simp add: card_holders_put holders_put_iff holders_at empty_weak_def)
    then show ?thesis
      using None Some m
      by (simp add: WeakPtr_move_def set_weak_def safe_step_def in_memory_def)
  qed (use None in \<open>simp add: WeakPtr_move_def\<close>)
qed (simp add: WeakPtr_move_def)

lemma WeakPtr_Swap_safe:
  fixes s :: "'w::len state"
  assumes "consistent s" and "in_memory s"
  shows "safe_step s (WeakPtr_Swap h g s)"
proof (cases "weak s h")
  case (Some t)
  show ?thesis
  proof (cases "weak s g")
    case other: (Some ot)
    note d = consistentD [OF assms(1)]
    note m = in_memoryD [OF assms(2)] in_memory_weak [OF assms(2) Some]
      in_memory_weak [OF assms(2) other]
    have "consistent (s\<lparr>weak := (weak s)(h \<mapsto> ot, g \<mapsto> t)\<rparr>)"
      using assms(1) d Some other
      by (intro consistent_reshuffle_weak)
         (auto simp add: card_holders_put holders_put_iff holders_at
            dest: card_holders_pos [OF d(2)])
    then show ?thesis
      using Some other m
      by (simp add: WeakPtr_Swap_def set_weak_def safe_step_def in_memory_def)
  qed (use Some in \<open>simp add: WeakPtr_Swap_def\<close>)
qed (simp add: WeakPtr_Swap_def)

lemma WeakPtr_copy_assign_safe:
  fixes s :: "'w::len state"
  assumes "consistent s" and "in_memory s"
  shows "safe_step s (WeakPtr_copy_assign h g s)"
proof (cases "weak s h")
  case (Some t)
  show ?thesis
  proof (cases "weak s g")
    case other: (Some ot)
    show ?thesis
    proof (cases "g = h")
      case True
      with Some assms show ?thesis
        by (simp add: WeakPtr_copy_assign_def safe_step_same)
    next
      case False
      note a = in_memory_weak [OF assms(2) Some]
      let ?p = "\<lparr>observe_data_ptr = observe_data_ptr ot, observe_cb = observe_cb ot\<rparr>"
      from drop_weak_step [OF assms(1) Some] obtain s1 where s1:
        "drop_weak (observe_cb t) s = Inr s1"
        "shared s1 = shared s" "weak s1 = weak s"
        "consistent (s1\<lparr>weak := (weak s)(h \<mapsto> empty_weak)\<rparr>)"
        by (auto simp add: empty_weak_def)
      let ?e = "s1\<lparr>weak := (weak s)(h \<mapsto> empty_weak)\<rparr>"
      note de = consistentD [OF s1(4)]
      have mem_e: "in_memory ?e"
        using assms(2) s1(2) a by (simp add: in_memory_def)
      have g_e: "weak ?e g = Some ot" using other False by simp
      have live: "0 < card (holders control_block (shared ?e) b)
                        + card (holders observe_cb (weak ?e) b)"
        if "observe_cb ot = Some b" for b
        using card_holders_pos [where f = observe_cb and m = "weak ?e", OF de(2) g_e that]
        by simp
      have free: "observe_cb q = None" if "weak ?e h = Some q" for q
        using that by (auto simp add: empty_weak_def)
      have "safe_step ?e (case observe_cb ot of
                            None \<Rightarrow> Inr (set_weak h ?p ?e)
                          | Some b \<Rightarrow> IncrementWeak b (set_weak h ?p ?e))"
      proof (rule share_into_weak_safe [OF s1(4) mem_e a])
        show "observe_cb ?p = observe_cb ot" by simp
        show "observe_cb q = None" if "weak ?e h = Some q" for q
          using that by (rule free)
        show "0 < card (holders control_block (shared ?e) b)
                    + card (holders observe_cb (weak ?e) b)"
          if "observe_cb ot = Some b" for b
          using that by (rule live)
      qed
      moreover have "set_weak h ?p ?e = set_weak h ?p s1"
        using s1(3) by (simp add: set_weak_def)
      moreover have "safe_step ?e r = safe_step s r" for r
        using mem_e assms(2) by (intro safe_step_cong) simp
      ultimately have "safe_step s (case observe_cb ot of
                            None \<Rightarrow> Inr (set_weak h ?p s1)
                          | Some b \<Rightarrow> IncrementWeak b (set_weak h ?p s1))"
        by (cases "observe_cb ot") simp_all
      then show ?thesis
        using Some other False s1(1,3)
        by (simp add: WeakPtr_copy_assign_def Let_def)
    qed
  qed (use Some in \<open>simp add: WeakPtr_copy_assign_def\<close>)
qed (simp add: WeakPtr_copy_assign_def)

lemma WeakPtr_move_assign_safe:
  fixes s :: "'w::len state"
  assumes "consistent s" and "in_memory s"
  shows "safe_step s (WeakPtr_move_assign h g s)"
proof (cases "weak s h")
  case (Some t)
  show ?thesis
  proof (cases "weak s g")
    case other: (Some ot)
    show ?thesis
    proof (cases "g = h")
      case True
      with Some assms show ?thesis
        by (simp add: WeakPtr_move_assign_def safe_step_same)
    next
      case False
      note d = consistentD [OF assms(1)]
      note m = in_memoryD [OF assms(2)] in_memory_weak [OF assms(2) Some]
        in_memory_weak [OF assms(2) other]
      let ?p = "\<lparr>observe_data_ptr = observe_data_ptr ot, observe_cb = observe_cb ot\<rparr>"
      from drop_weak_step [OF assms(1) Some] obtain s1 where s1:
        "drop_weak (observe_cb t) s = Inr s1"
        "shared s1 = shared s" "weak s1 = weak s"
        "consistent (s1\<lparr>weak := (weak s)(h \<mapsto> empty_weak)\<rparr>)"
        by (auto simp add: empty_weak_def)
      let ?e = "s1\<lparr>weak := (weak s)(h \<mapsto> empty_weak)\<rparr>"
      note de = consistentD [OF s1(4)]
      have "consistent (?e\<lparr>weak := (weak s)(h \<mapsto> ?p, g \<mapsto> empty_weak)\<rparr>)"
        using s1(4) de(2) d(2) other False
        by (intro consistent_reshuffle_weak [where s = ?e])
           (auto simp add: card_holders_put holders_put_iff holders_at empty_weak_def)
      then have "consistent (s1\<lparr>weak := (weak s)(h \<mapsto> ?p, g \<mapsto> empty_weak)\<rparr>)"
        by simp
      then show ?thesis
        using Some other False s1(1-3) m
        by (simp add: WeakPtr_move_assign_def set_weak_def safe_step_def in_memory_def)
    qed
  qed (use Some in \<open>simp add: WeakPtr_move_assign_def\<close>)
qed (simp add: WeakPtr_move_assign_def)

section \<open>Programs keep the state in order\<close>

lemma apply_op_safe:
  fixes s :: "'w::len state"
  assumes "consistent s" and "in_memory s"
    and "handle_addresses x \<subseteq> {0<..<2 ^ LENGTH('w)}"
  shows "safe_step s (apply_op plain_payload x s)"
  using assms
  by (cases x)
     (simp_all add: SharedPtr_default_safe SharedPtr_from_ptr_safe MakeShared_safe
       SharedPtr_copy_safe SharedPtr_move_safe SharedPtr_alias_safe SharedPtr_promote_safe
       SharedPtr_copy_assign_safe SharedPtr_move_assign_safe SharedPtr_dtor_safe
       SharedPtr_Reset_safe SharedPtr_Reset_ptr_safe SharedPtr_Swap_safe
       WeakPtr_default_safe WeakPtr_copy_safe WeakPtr_move_safe WeakPtr_from_shared_safe
       WeakPtr_copy_assign_safe WeakPtr_move_assign_safe WeakPtr_dtor_safe WeakPtr_Reset_safe
       WeakPtr_Swap_safe Lock_safe)

lemma init_consistent: "consistent (init :: 'w::len state)"
  by (simp add: consistent_def init_def strong_owners_def weak_owners_def holders_def
      block_ok_def teardowns_def releases_def)

lemma init_in_memory: "in_memory (init :: 'w::len state)"
  by (simp add: in_memory_def init_def)

lemma run_safe:
  fixes s :: "'w::len state"
  assumes "consistent s" and "in_memory s"
    and "\<forall>x \<in> set xs. handle_addresses x \<subseteq> {0<..<2 ^ LENGTH('w)}"
  shows "run plain_payload xs s \<noteq> Inl UseAfterFree
         \<and> (\<forall>s'. run plain_payload xs s = Inr s' \<longrightarrow> consistent s' \<and> in_memory s')"
  using assms
proof (induction xs arbitrary: s)
  case Nil
  then show ?case by simp
next
  case (Cons x xs)
  from Cons.prems have step: "safe_step s (apply_op plain_payload x s)"
    by (intro apply_op_safe) simp_all
  show ?case
  proof (cases "apply_op plain_payload x s")
    case (Inl e)
    with step show ?thesis by (simp add: safe_step_def)
  next
    case (Inr s1)
    with step have s1: "consistent s1" "in_memory s1"
      by (simp_all add: safe_step_def)
    with Cons.prems have
      "run plain_payload xs s1 \<noteq> Inl UseAfterFree
       \<and> (\<forall>s'. run plain_payload xs s1 = Inr s' \<longrightarrow> consistent s' \<and> in_memory s')"
      by (intro Cons.IH) simp_all
    with Inr show ?thesis by simp
  qed
qed

section \<open>The payload is torn down exactly once\<close>

text \<open>
  With payloads whose destructors touch no handle the claim holds. Take any program over
  \<^verbatim>\<open>SharedPtr\<close>s (and \<^verbatim>\<open>WeakPtr\<close>s): construction from a pointer, \<^verbatim>\<open>MakeShared\<close>, copies,
  moves, assignments, \<^verbatim>\<open>Reset\<close>, destruction and the rest, with its handles at addresses
  that are not null and fit into \<open>w\<close> bits. In the state it reaches, for every control block
  \<open>b\<close>:
  \<^item> \<^verbatim>\<open>OnZeroReferences\<close> of \<open>b\<close> has run once if \<open>b\<close> was allocated and its strong count is 0
    (or it has been released since), and not at all otherwise, so never while the strong
    count is positive and never twice;
  \<^item> the strong count of \<open>b\<close> is the number of \<^verbatim>\<open>SharedPtr\<close>s that hold \<open>b\<close>, and no
    handle holds a block that is gone.
  And in any state, \<^verbatim>\<open>DecrementStrong\<close> runs \<^verbatim>\<open>OnZeroReferences\<close> (once) exactly when the
  strong count was 1 before the call, that is, at the step from 1 to 0.
\<close>

lemma plain_payload_teardown_once:
  fixes s :: "'w::len state"
  assumes "run plain_payload ops init = Inr s"
    and "\<forall>x \<in> set ops. handle_addresses x \<subseteq> {0<..<2 ^ LENGTH('w)}"
  shows "count_list (events s) (Teardown b) =
           (case blocks s b of
              Some cb \<Rightarrow> if ref_count cb = 0 then 1 else 0
            | None \<Rightarrow> if b < next_block s then 1 else 0)
       \<and> (\<forall>cb. blocks s b = Some cb \<longrightarrow> unat (ref_count cb) = card (strong_owners s b))
       \<and> (blocks s b = None \<longrightarrow> strong_owners s b = {})
       \<and> (\<forall>s0 :: 'w state. \<forall>cb. blocks s0 b = Some cb \<longrightarrow>
            (\<exists>s1. DecrementStrong plain_payload b s0 = Inr s1
               \<and> count_list (events s1) (Teardown b) =
                   count_list (events s0) (Teardown b) + (if ref_count cb = 1 then 1 else 0)))"
proof -
  have "consistent s"
    using run_safe [OF init_consistent init_in_memory assms(2)] assms(1) by blast
  note d = consistentD [OF this]
  have ok: "block_ok s b (card (strong_owners s b)) (card (weak_owners s b))"
    using d(3) [of b] by (simp add: strong_owners_def weak_owners_def)
  have fin: "finite (strong_owners s b)"
    using d(1) by (simp add: strong_owners_def finite_holders)
  have trace: "count_list (events s) (Teardown b) =
           (case blocks s b of
              Some cb \<Rightarrow> if ref_count cb = 0 then 1 else 0
            | None \<Rightarrow> if b < next_block s then 1 else 0)
       \<and> (\<forall>cb. blocks s b = Some cb \<longrightarrow> unat (ref_count cb) = card (strong_owners s b))
       \<and> (blocks s b = None \<longrightarrow> strong_owners s b = {})"
  proof (cases "blocks s b")
    case None
    with ok fin show ?thesis
      by (simp add: block_ok_def teardowns_def)
  next
    case (Some cb)
    with ok have "unat (ref_count cb) = card (strong_owners s b)"
      and "teardowns s b = (if card (strong_owners s b) = 0 then 1 else 0)"
      by (simp_all add: block_ok_def)
    moreover have "(unat (ref_count cb) = 0) = (ref_count cb = 0)"
      by (simp add: unat_eq_0)
    ultimately show ?thesis
      using Some by (auto simp add: teardowns_def)
  qed
  have "\<exists>s1. DecrementStrong plain_payload b s0 = Inr s1
          \<and> count_list (events s1) (Teardown b) =
              count_list (events s0) (Teardown b) + (if ref_count cb = 1 then 1 else 0)"
    if "blocks s0 b = Some cb" for s0 :: "'w state" and cb
    using that by (simp add: DecrementStrong_plain)
  with trace show ?thesis by blast
qed

lemma plain_payload_teardown_once_example:
  "run plain_payload [SharedMake 10, SharedCopy 11 10, SharedDtor 10, SharedDtor 11]
     (init :: 64 state)
     = Inr (shared_twice_gone :: 64 state)
   \<and> count_list (events shared_twice_gone) (Teardown 0) = 1
   \<and> blocks shared_twice_gone 0 = None \<and> 0 < next_block shared_twice_gone"
proof -
  have l: "\<forall>x \<in> set [SharedMake 10, SharedCopy 11 10, SharedDtor 10, SharedDtor 11].
             handle_addresses x \<subseteq> {0<..<2 ^ LENGTH(64)}"
    by simp
  have r: "run plain_payload [SharedMake 10, SharedCopy 11 10, SharedDtor 10, SharedDtor 11]
             (init :: 64 state) = Inr shared_twice_gone"
    by (simp add: init_def MakeShared_def SharedPtr_from_pair_def allocate_def new_block_def
        set_shared_def SharedPtr_copy_def IncrementStrong_def SharedPtr_dtor_def drop_strong_def
        DecrementStrong_def OnZeroReferences_def plain_payload_def delete_this_def
        GetDataPtr_def Let_def shared_twice_gone_def)
  from plain_payload_teardown_once [OF r l, of 0] r show ?thesis
    by (simp add: shared_twice_gone_def)
qed

text \<open>
  C1 fails when the destructor of the payload copies a handle that holds its block.
  \<^verbatim>\<open>Reset()\<close> runs \<^verbatim>\<open>DecrementStrong\<close> before it clears the members of the handle, so that
  during the teardown the handle 10 still holds block 0, with strong count 0; the copy
  constructor counts the block up to 1 again. After \<^verbatim>\<open>Reset()\<close> the payload has been torn
  down, and block 0 is held by the copy with strong count 1. The destruction of the copy
  takes the count from 1 to 0 a second time, and \<^verbatim>\<open>OnZeroReferences\<close> of block 0 runs a second
  time. (The \<^verbatim>\<open>WeakPtr\<close> 11 keeps the block in memory; without it the block is released
  while the copy holds it, and the destruction of the copy works on a freed block.)
\<close>

theorem resurrecting_payload_torn_down_twice:
  "run (resurrecting_payload 13 10)
     [SharedFromPtr 10 (Some (Allocated 7)), WeakFromShared 11 10, SharedReset 10]
     (init :: 64 state) = Inr resurrected_state
   \<and> count_list (events resurrected_state) (Teardown 0) = 1
   \<and> GetCount 0 resurrected_state = Inr 1
   \<and> run (resurrecting_payload 13 10)
       [SharedFromPtr 10 (Some (Allocated 7)), WeakFromShared 11 10, SharedReset 10, SharedDtor 13]
       (init :: 64 state) = Inr torn_down_twice
   \<and> count_list (events torn_down_twice) (Teardown 0) = 2
   \<and> run (resurrecting_payload 13 10)
       [SharedFromPtr 10 (Some (Allocated 7)), SharedReset 10, SharedDtor 13]
       (init :: 64 state) = Inl UseAfterFree"
  by (simp add: init_def SharedPtr_from_ptr_def WeakPtr_from_shared_def allocate_def new_block_def
      set_shared_def set_weak_def IncrementWeak_def IncrementStrong_def SharedPtr_Reset_def
      SharedPtr_dtor_def SharedPtr_copy_def drop_strong_def DecrementStrong_def
      OnZeroReferences_def resurrecting_payload_def delete_this_def GetCount_def
      resurrected_state_def torn_down_twice_def empty_shared_def Let_def fun_upd_twist)

section \<open>The control block is released\<close>

text \<open>
  With payloads whose destructors touch no handle the counting is right: a program whose
  handles lie at addresses that are not null and fit into \<open>w\<close> bits never touches a freed
  block, a block is gone exactly when no handle of either kind holds it, and then it has
  been released once. In every state,
  \<^verbatim>\<open>DecrementWeak\<close> releases the block exactly when the new weak count and the strong count
  are both 0.
\<close>

lemma plain_payload_release_once:
  fixes s :: "'w::len state"
  assumes "\<forall>x \<in> set ops. handle_addresses x \<subseteq> {0<..<2 ^ LENGTH('w)}"
  shows "run plain_payload ops (init :: 'w state) \<noteq> Inl UseAfterFree"
    and "run plain_payload ops init = Inr s \<Longrightarrow>
           count_list (events s) (Release b) = (if b < next_block s \<and> blocks s b = None then 1 else 0)
           \<and> (blocks s b = None \<longleftrightarrow> strong_owners s b = {} \<and> weak_owners s b = {})"
proof -
  note safe = run_safe [OF init_consistent init_in_memory assms]
  from safe show "run plain_payload ops (init :: 'w state) \<noteq> Inl UseAfterFree"
    by simp
  assume "run plain_payload ops init = Inr s"
  with safe have "consistent s" by simp
  note d = consistentD [OF this]
  have fin: "finite (strong_owners s b)" "finite (weak_owners s b)"
    using d(1,2) by (simp_all add: strong_owners_def weak_owners_def finite_holders)
  have "block_ok s b (card (strong_owners s b)) (card (weak_owners s b))"
    using d(3) [of b] by (simp add: strong_owners_def weak_owners_def)
  with fin show "count_list (events s) (Release b) =
           (if b < next_block s \<and> blocks s b = None then 1 else 0)
           \<and> (blocks s b = None \<longleftrightarrow> strong_owners s b = {} \<and> weak_owners s b = {})"
    by (cases "blocks s b") (auto simp add: block_ok_def releases_def)
qed

lemma DecrementWeak_releases_iff:
  fixes s :: "'w::len state"
  assumes "blocks s b = Some cb"
  shows "\<exists>s1. DecrementWeak b s = Inr s1
           \<and> (blocks s1 b = None \<longleftrightarrow> weak_count cb - 1 = 0 \<and> ref_count cb = 0)
           \<and> (Release b \<in> set (events s1) - set (events s)
                \<longrightarrow> weak_count cb - 1 = 0 \<and> ref_count cb = 0)"
  using assms by (auto simp add: DecrementWeak_def delete_this_def Let_def)

text \<open>
  C2 fails in the code when the payload observes its own control block. Handle 10 is the
  only \<^verbatim>\<open>SharedPtr\<close> of block 0, and the payload has a \<^verbatim>\<open>WeakPtr\<close> member (handle 11) to
  block 0, the only weak handle. When handle 10 is destroyed, \<^verbatim>\<open>DecrementStrong\<close> brings the strong
  count to 0 and runs \<^verbatim>\<open>OnZeroReferences\<close>; the payload's destructor destroys the member,
  whose \<^verbatim>\<open>DecrementWeak\<close> finds both counts 0 and deletes the block. Back in
  \<^verbatim>\<open>DecrementStrong\<close>, the test \<^verbatim>\<open>weak_count_ == 0\<close> reads the block that has just been
  deleted.
\<close>

theorem self_observing_payload_use_after_free:
  "OnZeroReferences (self_observing_payload 11) 0
     (observed_state\<lparr>blocks := [0 \<mapsto> \<lparr>ref_count = 0, weak_count = 1,
                                       variant = PtrControlBlock (Some (Allocated 7))\<rparr>]\<rparr>)
     = Inr (observed_state\<lparr>blocks := Map.empty, weak := Map.empty,
                           events := [Teardown 0, Release 0]\<rparr>)
   \<and> DecrementStrong (self_observing_payload 11) 0 observed_state = Inl UseAfterFree
   \<and> run (self_observing_payload 11)
         [SharedFromPtr 10 (Some (Allocated 7)), WeakFromShared 11 10, SharedDtor 10] (init :: 64 state)
       = Inl UseAfterFree
   \<and> run plain_payload
         [SharedFromPtr 10 (Some (Allocated 7)), WeakFromShared 11 10, SharedDtor 10, WeakDtor 11]
         (init :: 64 state)
       = Inr (observed_state\<lparr>blocks := Map.empty, shared := Map.empty, weak := Map.empty,
                             events := [Teardown 0, Release 0]\<rparr>)"
  by (simp add: observed_state_def init_def OnZeroReferences_def self_observing_payload_def
      WeakPtr_dtor_def drop_weak_def DecrementWeak_def DecrementStrong_def delete_this_def
      SharedPtr_from_ptr_def allocate_def new_block_def set_shared_def WeakPtr_from_shared_def
      set_weak_def IncrementWeak_def SharedPtr_dtor_def drop_strong_def plain_payload_def
      Let_def)

section \<open>Promotion of a weak handle\<close>



section \<open>\<^verbatim>\<open>Reset\<close>\<close>

text \<open>
  C4, as the claim states it, fails: \<^verbatim>\<open>Reset(ptr)\<close> with the pointer the handle has already
  returns at once. Here handle 10 holds payload 7 and block 0 with strong count 1, and after
  \<^verbatim>\<open>Reset\<close> with payload 7 the state is what it was: the strong count of block 0 is still
  1, and the handle holds block 0, not a fresh block.
\<close>

theorem reset_same_pointer_counterexample:
  "SharedPtr_Reset_ptr plain_payload 10 (Some (Allocated 7)) observed_state = Inr observed_state
   \<and> GetCount 0 observed_state = Inr 1
   \<and> shared observed_state 10 = Some \<lparr>data_ptr = Some (Allocated 7), control_block = Some 0\<rparr>
   \<and> next_block observed_state = 1"
  by (simp add: SharedPtr_Reset_ptr_def observed_state_def GetCount_def)

text \<open>
  C4, amended, for every payload destructor \<open>dtor\<close>. \<^verbatim>\<open>Reset(ptr)\<close> does nothing when \<open>ptr\<close> is
  the payload pointer the handle has. Otherwise it runs \<^verbatim>\<open>DecrementStrong\<close> once on the block
  the handle holds, if it holds one, and when that has returned and the handle is still
  there, then, for a \<open>ptr\<close> that is not null, the handle holds \<open>ptr\<close> and a freshly allocated
  \<^verbatim>\<open>PtrControlBlock\<close> around \<open>ptr\<close> with strong count 1, and for a null \<open>ptr\<close> the handle is
  empty. \<^verbatim>\<open>Reset()\<close> runs the same decrement and leaves the handle empty.

  The decrement takes the strong count of the block down by one. When the count was not 1,
  that is all, whatever the payload is. When it was 1, the payload is torn down with the
  count at 0, and if its destructor returns and has left the block in memory, the block is
  released when its weak count is 0. A destructor that touches no handle leaves the handles
  and the allocation counter as they were.
\<close>

theorem reset_effect:
  fixes s :: "'w::len state"
  assumes "shared s this = Some t"
  shows "(data_ptr t = ptr \<longrightarrow> SharedPtr_Reset_ptr dtor this ptr s = Inr s)
       \<and> (\<forall>s1. data_ptr t \<noteq> ptr \<and> drop_strong dtor (control_block t) s = Inr s1
              \<and> shared s1 this \<noteq> None \<longrightarrow>
            SharedPtr_Reset_ptr dtor this ptr s =
              Inr (case ptr of
                     None \<Rightarrow> s1\<lparr>shared := (shared s1)(this \<mapsto> empty_shared)\<rparr>
                   | Some x \<Rightarrow>
                       s1\<lparr>shared := (shared s1)(this \<mapsto>
                                        \<lparr>data_ptr = ptr, control_block = Some (next_block s1)\<rparr>),
                          blocks := (blocks s1)(next_block s1 \<mapsto>
                                        \<lparr>ref_count = 1, weak_count = 0,
                                         variant = PtrControlBlock ptr\<rparr>),
                          next_block := Suc (next_block s1)\<rparr>))
       \<and> (\<forall>s1. drop_strong dtor (control_block t) s = Inr s1 \<and> shared s1 this \<noteq> None \<longrightarrow>
            SharedPtr_Reset dtor this s =
              Inr (s1\<lparr>shared := (shared s1)(this \<mapsto> empty_shared)\<rparr>))
       \<and> (control_block t = None \<longrightarrow> drop_strong dtor (control_block t) s = Inr s)
       \<and> (\<forall>b cb. control_block t = Some b \<and> blocks s b = Some cb \<longrightarrow>
            drop_strong dtor (control_block t) s = DecrementStrong dtor b s
            \<and> (ref_count cb \<noteq> 1 \<longrightarrow>
                 DecrementStrong dtor b s =
                   Inr (s\<lparr>blocks := (blocks s)(b \<mapsto> cb\<lparr>ref_count := ref_count cb - 1\<rparr>)\<rparr>))
            \<and> (\<forall>s2 cb2. ref_count cb = 1
                   \<and> dtor b (s\<lparr>blocks := (blocks s)(b \<mapsto> cb\<lparr>ref_count := 0\<rparr>),
                                  events := events s @ [Teardown b]\<rparr>) = Inr s2
                   \<and> blocks s2 b = Some cb2 \<longrightarrow>
                 DecrementStrong dtor b s =
                   Inr (if weak_count cb2 = 0 then delete_this b s2 else s2)))
       \<and> (\<forall>s1. drop_strong plain_payload (control_block t) s = Inr s1 \<longrightarrow>
            shared s1 = shared s \<and> next_block s1 = next_block s)"
proof -
  have frame: "shared s1 = shared s \<and> next_block s1 = next_block s"
    if "drop_strong plain_payload p s = Inr s1" for p s1
    using drop_strong_plain_frame [OF that] by simp
  have same: "SharedPtr_Reset_ptr dtor this ptr s = Inr s" if "data_ptr t = ptr"
    using assms that by (simp add: SharedPtr_Reset_ptr_def)
  have other: "SharedPtr_Reset_ptr dtor this ptr s =
              Inr (case ptr of
                     None \<Rightarrow> s1\<lparr>shared := (shared s1)(this \<mapsto> empty_shared)\<rparr>
                   | Some x \<Rightarrow>
                       s1\<lparr>shared := (shared s1)(this \<mapsto>
                                        \<lparr>data_ptr = ptr, control_block = Some (next_block s1)\<rparr>),
                          blocks := (blocks s1)(next_block s1 \<mapsto>
                                        \<lparr>ref_count = 1, weak_count = 0,
                                         variant = PtrControlBlock ptr\<rparr>),
                          next_block := Suc (next_block s1)\<rparr>)"
    if "data_ptr t \<noteq> ptr" "drop_strong dtor (control_block t) s = Inr s1"
      "shared s1 this \<noteq> None" for s1
    using assms that
    by (auto simp add: SharedPtr_Reset_ptr_def set_shared_def allocate_def new_block_def
        split: option.splits)
  have reset: "SharedPtr_Reset dtor this s =
                 Inr (s1\<lparr>shared := (shared s1)(this \<mapsto> empty_shared)\<rparr>)"
    if "drop_strong dtor (control_block t) s = Inr s1" "shared s1 this \<noteq> None" for s1
    using assms that by (auto simp add: SharedPtr_Reset_def set_shared_def)
  have none: "drop_strong dtor (control_block t) s = Inr s" if "control_block t = None"
    using that by (simp add: drop_strong_def)
  have dec: "drop_strong dtor (control_block t) s = DecrementStrong dtor b s
            \<and> (ref_count cb \<noteq> 1 \<longrightarrow>
                 DecrementStrong dtor b s =
                   Inr (s\<lparr>blocks := (blocks s)(b \<mapsto> cb\<lparr>ref_count := ref_count cb - 1\<rparr>)\<rparr>))
            \<and> (\<forall>s2 cb2. ref_count cb = 1
                   \<and> dtor b (s\<lparr>blocks := (blocks s)(b \<mapsto> cb\<lparr>ref_count := 0\<rparr>),
                                  events := events s @ [Teardown b]\<rparr>) = Inr s2
                   \<and> blocks s2 b = Some cb2 \<longrightarrow>
                 DecrementStrong dtor b s =
                   Inr (if weak_count cb2 = 0 then delete_this b s2 else s2))"
    if "control_block t = Some b" "blocks s b = Some cb" for b cb
    using that by (simp add: drop_strong_def DecrementStrong_eq)
  from same other reset none dec frame show ?thesis
    by blast
qed

theorem reset_effect_witness:
  "SharedPtr_Reset_ptr plain_payload 10 (Some (Allocated 8)) observed_state =
     Inr \<lparr>blocks = [0 \<mapsto> \<lparr>ref_count = 0, weak_count = 1,
                              variant = PtrControlBlock (Some (Allocated 7))\<rparr>,
                      1 \<mapsto> \<lparr>ref_count = 1, weak_count = 0,
                              variant = PtrControlBlock (Some (Allocated 8))\<rparr>],
          shared = [10 \<mapsto> \<lparr>data_ptr = Some (Allocated 8), control_block = Some 1\<rparr>],
          weak = [11 \<mapsto> \<lparr>observe_data_ptr = Some (Allocated 7), observe_cb = Some 0\<rparr>],
          events = [Teardown 0],
          next_block = 2\<rparr>
   \<and> SharedPtr_Reset plain_payload 10 observed_state =
       Inr (expired_state\<lparr>shared := [10 \<mapsto> empty_shared]\<rparr>)
   \<and> SharedPtr_Reset_ptr plain_payload 10 (Some (Allocated 7)) observed_state =
       Inr observed_state
   \<and> SharedPtr_Reset (owning_payload 0 12) 10 holder_state =
       Inr (holder_gone\<lparr>shared := (shared holder_gone)(10 \<mapsto> empty_shared)\<rparr>)
   \<and> SharedPtr_Reset_ptr (owning_payload 0 12) 10 (Some (Allocated 8)) holder_state =
       Inr (holder_gone
              \<lparr>shared := (shared holder_gone)
                 (10 \<mapsto> \<lparr>data_ptr = Some (Allocated 8), control_block = Some 2\<rparr>),
               blocks := (blocks holder_gone)
                 (2 \<mapsto> \<lparr>ref_count = 1, weak_count = 0,
                         variant = PtrControlBlock (Some (Allocated 8))\<rparr>),
               next_block := 3\<rparr>)
   \<and> SharedPtr_Reset_ptr (owning_payload 0 12) 13 None holder_state =
       Inr (holder_state
              \<lparr>blocks := (blocks holder_state)
                 (1 \<mapsto> \<lparr>ref_count = 1, weak_count = 0, variant = ObjectControlBlock\<rparr>),
               shared := (shared holder_state)(13 \<mapsto> empty_shared)\<rparr>)
   \<and> SharedPtr_Reset_ptr plain_payload 10 (Some (Allocated 8)) detached_state =
       Inr (detached_state
              \<lparr>shared := (shared detached_state)
                 (10 \<mapsto> \<lparr>data_ptr = Some (Allocated 8), control_block = Some 1\<rparr>),
               blocks := (blocks detached_state)
                 (1 \<mapsto> \<lparr>ref_count = 1, weak_count = 0,
                         variant = PtrControlBlock (Some (Allocated 8))\<rparr>),
               next_block := 2\<rparr>)"
proof -
  let ?t = "\<lparr>data_ptr = Some (Allocated 7), control_block = Some 0\<rparr>"
  let ?u = "\<lparr>data_ptr = Some (Storage 0), control_block = Some 0\<rparr>"
  let ?v = "\<lparr>data_ptr = Some (Storage 1), control_block = Some 1\<rparr>"
  let ?x = "expired_state\<lparr>shared := shared observed_state\<rparr>"
  let ?y = "holder_state
              \<lparr>blocks := (blocks holder_state)
                 (1 \<mapsto> \<lparr>ref_count = 1, weak_count = 0, variant = ObjectControlBlock\<rparr>)\<rparr>"
  let ?own = "owning_payload 0 12 :: block_id \<Rightarrow> 64 state \<Rightarrow> error + 64 state"
  have t: "shared observed_state 10 = Some ?t"
    by (simp add: observed_state_def)
  have u: "shared holder_state 10 = Some ?u"
    by (simp add: holder_state_def)
  have v: "shared holder_state 13 = Some ?v"
    by (simp add: holder_state_def)
  have e: "shared detached_state 10 = Some empty_shared"
    by (simp add: detached_state_def)
  have d: "drop_strong plain_payload (control_block ?t) observed_state = Inr ?x"
    by (simp add: drop_strong_def DecrementStrong_plain [where cb = "the (blocks observed_state 0)"]
        observed_state_def expired_state_def)
  have h: "drop_strong ?own (control_block ?u) holder_state = Inr holder_gone"
    by (simp add: drop_strong_def holder_state_def holder_gone_def owning_payload_def
        DecrementStrong_eq [where cb = "the (blocks holder_state 0)"] SharedPtr_dtor_def
        DecrementStrong_plain
          [where cb = "\<lparr>ref_count = 2, weak_count = 0, variant = ObjectControlBlock\<rparr>"]
        delete_this_def fun_upd_twist)
  have k: "drop_strong ?own (control_block ?v) holder_state = Inr ?y"
    by (simp add: drop_strong_def holder_state_def
        DecrementStrong_eq [where cb = "the (blocks holder_state 1)"])
  have n: "drop_strong plain_payload (control_block empty_shared) detached_state =
             Inr detached_state"
    by (simp add: drop_strong_def empty_shared_def)
  have there: "shared ?x 10 \<noteq> None" "shared holder_gone 10 \<noteq> None" "shared ?y 13 \<noteq> None"
    "shared detached_state 10 \<noteq> None"
    by (simp_all add: observed_state_def holder_gone_def holder_state_def detached_state_def)
  have new: "data_ptr ?t \<noteq> Some (Allocated 8)" "data_ptr ?u \<noteq> Some (Allocated 8)"
    "data_ptr ?v \<noteq> None" "data_ptr empty_shared \<noteq> Some (Allocated 8)"
    "data_ptr ?t = Some (Allocated 7)"
    by (simp_all add: empty_shared_def)
  note r = reset_effect [OF t, where dtor = plain_payload and ptr = "Some (Allocated 8)"]
  from r [THEN conjunct2, THEN conjunct1, rule_format, of ?x]
    r [THEN conjunct2, THEN conjunct2, THEN conjunct1, rule_format, of ?x] d there(1) new(1)
  have plain: "SharedPtr_Reset_ptr plain_payload 10 (Some (Allocated 8)) observed_state =
      Inr (?x\<lparr>shared := (shared ?x)(10 \<mapsto>
                     \<lparr>data_ptr = Some (Allocated 8), control_block = Some (next_block ?x)\<rparr>),
              blocks := (blocks ?x)(next_block ?x \<mapsto>
                     \<lparr>ref_count = 1, weak_count = 0,
                      variant = PtrControlBlock (Some (Allocated 8))\<rparr>),
              next_block := Suc (next_block ?x)\<rparr>)"
    "SharedPtr_Reset plain_payload 10 observed_state =
      Inr (?x\<lparr>shared := (shared ?x)(10 \<mapsto> empty_shared)\<rparr>)"
    by simp_all
  from reset_effect [OF t, where dtor = plain_payload and ptr = "Some (Allocated 7)",
      THEN conjunct1] new(5)
  have same: "SharedPtr_Reset_ptr plain_payload 10 (Some (Allocated 7)) observed_state =
      Inr observed_state"
    by simp
  note r = reset_effect [OF u, where dtor = ?own and ptr = "Some (Allocated 8)"]
  from r [THEN conjunct2, THEN conjunct1, rule_format, of holder_gone]
    r [THEN conjunct2, THEN conjunct2, THEN conjunct1, rule_format, of holder_gone]
    h there(2) new(2)
  have owning: "SharedPtr_Reset_ptr ?own 10 (Some (Allocated 8)) holder_state =
      Inr (holder_gone\<lparr>shared := (shared holder_gone)(10 \<mapsto>
                     \<lparr>data_ptr = Some (Allocated 8),
                      control_block = Some (next_block holder_gone)\<rparr>),
              blocks := (blocks holder_gone)(next_block holder_gone \<mapsto>
                     \<lparr>ref_count = 1, weak_count = 0,
                      variant = PtrControlBlock (Some (Allocated 8))\<rparr>),
              next_block := Suc (next_block holder_gone)\<rparr>)"
    "SharedPtr_Reset ?own 10 holder_state =
      Inr (holder_gone\<lparr>shared := (shared holder_gone)(10 \<mapsto> empty_shared)\<rparr>)"
    by simp_all
  from reset_effect [OF v, where dtor = ?own and ptr = None,
      THEN conjunct2, THEN conjunct1, rule_format, of ?y] k there(3) new(3)
  have shared_block: "SharedPtr_Reset_ptr ?own 13 None holder_state =
      Inr (?y\<lparr>shared := (shared ?y)(13 \<mapsto> empty_shared)\<rparr>)"
    by simp
  from reset_effect [OF e, where dtor = plain_payload and ptr = "Some (Allocated 8)",
      THEN conjunct2, THEN conjunct1, rule_format, of detached_state] n there(4) new(4)
  have no_block: "SharedPtr_Reset_ptr plain_payload 10 (Some (Allocated 8)) detached_state =
      Inr (detached_state\<lparr>shared := (shared detached_state)(10 \<mapsto>
                     \<lparr>data_ptr = Some (Allocated 8),
                      control_block = Some (next_block detached_state)\<rparr>),
              blocks := (blocks detached_state)(next_block detached_state \<mapsto>
                     \<lparr>ref_count = 1, weak_count = 0,
                      variant = PtrControlBlock (Some (Allocated 8))\<rparr>),
              next_block := Suc (next_block detached_state)\<rparr>)"
    by simp
  show ?thesis
    unfolding plain same owning shared_block no_block
    by (simp add: observed_state_def expired_state_def holder_gone_def holder_state_def
        detached_state_def fun_upd_twist)
qed

text \<open>
  Outside these conditions: the payload of block 0 has the handle 10 as a member, and the
  handle holds block 0 (a payload that owns itself). \<^verbatim>\<open>Reset\<close> of the handle tears the
  payload down, the handle with it, and then writes the members of the handle, which is
  gone.
\<close>

lemma reset_of_destroyed_handle:
  "run (owning_payload 0 10) [SharedFromPtr 10 (Some (Allocated 7)), SharedReset 10]
     (init :: 64 state) = Inl InvalidHandle
   \<and> run (owning_payload 0 10) [SharedFromPtr 10 (Some (Allocated 7)), SharedResetPtr 10 None]
     (init :: 64 state) = Inl InvalidHandle"
  by (simp add: init_def SharedPtr_from_ptr_def allocate_def new_block_def set_shared_def
      SharedPtr_Reset_def SharedPtr_Reset_ptr_def drop_strong_def DecrementStrong_def
      OnZeroReferences_def owning_payload_def SharedPtr_dtor_def plain_payload_def
      delete_this_def Let_def)

section \<open>The intrusive counter and the strong count\<close>

text \<open>
  C5, as the claim states it, fails: from the initial states (a \<^verbatim>\<open>SimpleCounter\<close> is 0, a
  control block's strong count is 1) one increment and one decrement destroy the
  \<^verbatim>\<open>RefCounted\<close> object and leave the control block with strong count 1.
\<close>

theorem intrusive_counter_counterexample:
  "object_trace [Inc, Dec] 0 (first_object :: 64 objects) = [Inr (Some 1, 0), Inr (None, 1)]
   \<and> block_trace [Inc, Dec] 0 (first_block :: 64 state) = [Inr (Some 2, 0), Inr (Some 1, 0)]"
  by (simp add: first_object_def first_block_def allocate_def init_def new_block_def
      RefCounted_IncRef_def RefCounted_DecRef_def SimpleCounter_IncRef_def
      SimpleCounter_DecRef_def SimpleCounter_init_def IncrementStrong_def
      DecrementStrong_def Let_def)

lemma freed_traces_agree:
  "counters ob a = None \<Longrightarrow> blocks s b = None \<Longrightarrow> object_trace ops a ob = block_trace ops b s"
  by (cases ops)
     (simp_all add: RefCounted_IncRef_def RefCounted_DecRef_def IncrementStrong_def
       DecrementStrong_def split: count_op.splits)

lemma live_traces_agree:
  fixes ob :: "'w::len objects" and s :: "'w state"
  assumes "counters ob a = Some c" and "blocks s b = Some cb"
    and "count c = ref_count cb" and "weak_count cb = 0" and "ref_count cb \<noteq> 0"
    and "unat (ref_count cb) + length ops < 2 ^ LENGTH('w)"
    and "count_list (destroyed ob) a = count_list (events s) (Teardown b)"
  shows "object_trace ops a ob = block_trace ops b s"
  using assms
proof (induction ops arbitrary: ob s c cb)
  case Nil
  show ?case by simp
next
  case (Cons x xs)
  show ?case
  proof (cases x)
    case Inc
    let ?ob = "ob\<lparr>counters := (counters ob)(a \<mapsto> c\<lparr>count := count c + 1\<rparr>)\<rparr>"
    let ?s = "s\<lparr>blocks := (blocks s)(b \<mapsto> cb\<lparr>ref_count := ref_count cb + 1\<rparr>)\<rparr>"
    from Cons.prems(6) have "unat (ref_count cb) < 2 ^ LENGTH('w) - 1" by simp
    then have nmax: "ref_count cb \<noteq> - 1" by (auto simp add: unat_max_word)
    then have u: "unat (ref_count cb + 1) = Suc (unat (ref_count cb))" by (rule unat_succ)
    then have nz: "ref_count cb + 1 \<noteq> 0" by (metis Zero_not_Suc unat_0)
    have "object_trace xs a ?ob = block_trace xs b ?s"
      by (rule Cons.IH [where c = "c\<lparr>count := count c + 1\<rparr>"
            and cb = "cb\<lparr>ref_count := ref_count cb + 1\<rparr>"])
         (use Cons.prems u nz in simp_all)
    with Cons.prems(1-3,7) Inc show ?thesis
      by (simp add: RefCounted_IncRef_def SimpleCounter_IncRef_def IncrementStrong_def)
  next
    case Dec
    from Cons.prems(3,5) have pos: "0 < count c" by (simp add: word_greater_zero_iff)
    show ?thesis
    proof (cases "ref_count cb = 1")
      case True
      let ?ob = "ob\<lparr>counters := (counters ob)(a := None), destroyed := destroyed ob @ [a]\<rparr>"
      let ?s = "s\<lparr>blocks := (blocks s)(b := None), events := events s @ [Teardown b, Release b]\<rparr>"
      have "object_trace xs a ?ob = block_trace xs b ?s"
        by (rule freed_traces_agree) simp_all
      with Cons.prems(1-4,7) Dec True pos show ?thesis
        by (simp add: RefCounted_DecRef_def SimpleCounter_DecRef_def DecrementStrong_plain)
    next
      case False
      let ?ob = "ob\<lparr>counters := (counters ob)(a \<mapsto> c\<lparr>count := count c - 1\<rparr>)\<rparr>"
      let ?s = "s\<lparr>blocks := (blocks s)(b \<mapsto> cb\<lparr>ref_count := ref_count cb - 1\<rparr>)\<rparr>"
      from False have nz: "ref_count cb - 1 \<noteq> 0" by (simp add: word_pred_zero)
      from Cons.prems(5) have u: "unat (ref_count cb - 1) = unat (ref_count cb) - 1"
        by (rule unat_minus_one)
      have "object_trace xs a ?ob = block_trace xs b ?s"
        by (rule Cons.IH [where c = "c\<lparr>count := count c - 1\<rparr>"
              and cb = "cb\<lparr>ref_count := ref_count cb - 1\<rparr>"])
           (use Cons.prems u nz in simp_all)
      with Cons.prems(1-3,7) Dec False pos nz show ?thesis
        by (simp add: RefCounted_DecRef_def SimpleCounter_DecRef_def DecrementStrong_plain
            word_pred_zero)
    qed
  qed
qed

text \<open>
  C5, amended. Once the \<^verbatim>\<open>RefCounted\<close> object has had its first \<^verbatim>\<open>IncRef\<close> (what the
  constructor of \<^verbatim>\<open>IntrusivePtr\<close> does), so that its counter is 1 as the strong count of a
  new control block is, every sequence of fewer than \<open>2 ^ w - 1\<close> increments and decrements
  gives the same counter values on both sides and destroys the object at the step at which
  the control block tears down its payload.
\<close>

theorem intrusive_counter_agrees:
  assumes "length ops < 2 ^ LENGTH('w::len) - 1"
  shows "\<exists>ob. RefCounted_IncRef 0 first_object = Inr ob
           \<and> object_trace ops 0 ob = block_trace ops 0 (first_block :: 'w state)"
proof -
  let ?ob = "first_object\<lparr>counters := [0 \<mapsto> \<lparr>count = 1 :: 'w word\<rparr>]\<rparr>"
  have a: "RefCounted_IncRef 0 first_object = Inr ?ob"
    by (simp add: RefCounted_IncRef_def first_object_def SimpleCounter_IncRef_def
        SimpleCounter_init_def)
  have "object_trace ops 0 ?ob = block_trace ops 0 (first_block :: 'w state)"
    by (rule live_traces_agree [where c = "\<lparr>count = 1\<rparr>"
          and cb = "new_block ObjectControlBlock"])
       (use assms in \<open>simp_all add: first_object_def first_block_def allocate_def init_def
          new_block_def\<close>)
  with a show ?thesis by blast
qed

theorem intrusive_counter_agrees_witness:
  "length [Inc, Dec, Dec] < 2 ^ LENGTH(64) - 1
   \<and> (\<exists>ob. RefCounted_IncRef 0 (first_object :: 64 objects) = Inr ob
         \<and> object_trace [Inc, Dec, Dec] 0 ob = block_trace [Inc, Dec, Dec] 0 (first_block :: 64 state))
   \<and> block_trace [Inc, Dec, Dec] 0 (first_block :: 64 state)
       = [Inr (Some 2, 0), Inr (Some 1, 0), Inr (None, 1)]"
proof -
  have l: "length [Inc, Dec, Dec] < 2 ^ LENGTH(64) - 1" by simp
  have "block_trace [Inc, Dec, Dec] 0 (first_block :: 64 state)
          = [Inr (Some 2, 0), Inr (Some 1, 0), Inr (None, 1)]"
    by (simp add: first_block_def allocate_def init_def new_block_def IncrementStrong_def
        DecrementStrong_def OnZeroReferences_def plain_payload_def delete_this_def Let_def)
  with l intrusive_counter_agrees [OF l] show ?thesis by blast
qed

section \<open>From shared to weak and back\<close>

text \<open>
  C6. Let a \<^verbatim>\<open>SharedPtr\<close> hold a block and a payload pointer, and let a \<^verbatim>\<open>WeakPtr\<close> be built
  from it. In every later state in which that \<^verbatim>\<open>WeakPtr\<close> is as it was built and the block
  is there with a strong count that is not 0, \<^verbatim>\<open>Lock\<close> returns a \<^verbatim>\<open>SharedPtr\<close> whose \<^verbatim>\<open>Get\<close>
  is the payload pointer of the first handle.
\<close>

theorem weak_lock_round_trip:
  fixes s :: "'w::len state"
  assumes "shared s h = Some p" and "control_block p = Some b"
    and "WeakPtr_from_shared w h s = Inr s1"
    and "weak s' w = weak s1 w" and "shared s' res = None"
    and "blocks s' b = Some cb" and "ref_count cb \<noteq> 0"
  shows "\<exists>s'' r. Lock res w s' = Inr s'' \<and> shared s'' res = Some r \<and> Get r = Get p"
proof -
  from assms(1-3) have "weak s1 w = Some \<lparr>observe_data_ptr = data_ptr p, observe_cb = Some b\<rparr>"
    by (auto simp add: WeakPtr_from_shared_def IncrementWeak_def set_weak_def Let_def
        split: option.splits)
  with assms(4-7) show ?thesis
    by (simp add: Lock_def GetCount_def IncrementStrong_def SharedPtr_from_pair_def
        set_shared_def Get_def word_greater_zero_iff)
qed

theorem weak_lock_round_trip_witness:
  "\<exists>s1 s'' r. SharedPtr_from_ptr 10 (Some (Allocated 7)) (init :: 64 state) = Inr s1
     \<and> WeakPtr_from_shared 11 10 s1 = Inr observed_state
     \<and> Lock 12 11 observed_state = Inr s'' \<and> shared s'' 12 = Some r
     \<and> Get r = Some (Allocated 7)"
proof -
  let ?s1 = "observed_state\<lparr>weak := Map.empty,
    blocks := [0 \<mapsto> \<lparr>ref_count = 1, weak_count = 0,
                        variant = PtrControlBlock (Some (Allocated 7))\<rparr>]\<rparr>"
  have a: "SharedPtr_from_ptr 10 (Some (Allocated 7)) (init :: 64 state) = Inr ?s1"
    by (simp add: SharedPtr_from_ptr_def init_def allocate_def set_shared_def new_block_def
        observed_state_def)
  have b: "WeakPtr_from_shared 11 10 ?s1 = Inr observed_state"
    by (simp add: WeakPtr_from_shared_def IncrementWeak_def set_weak_def observed_state_def)
  have "\<exists>s'' r. Lock 12 11 observed_state = Inr s'' \<and> shared s'' 12 = Some r
          \<and> Get r = Get \<lparr>data_ptr = Some (Allocated 7), control_block = Some 0\<rparr>"
    by (rule weak_lock_round_trip [where s = ?s1 and h = 10 and b = 0 and w = 11
          and cb = "\<lparr>ref_count = 1, weak_count = 1,
                     variant = PtrControlBlock (Some (Allocated 7))\<rparr>", OF _ _ b])
       (simp_all add: observed_state_def)
  with a b show ?thesis by (auto simp add: Get_def)
qed

section \<open>Equality of handles\<close>

text \<open>
  C7. \<^verbatim>\<open>operator==\<close> on two \<^verbatim>\<open>SharedPtr\<close>s is true exactly when their payload pointers are
  the same, whatever control blocks the two handles hold.
\<close>

theorem equality_compares_payload_pointers:
  "operator_eq left right = (data_ptr left = data_ptr right)
   \<and> operator_eq (left\<lparr>control_block := b1\<rparr>) (right\<lparr>control_block := b2\<rparr>)
       = operator_eq left right"
  by (simp add: operator_eq_def Get_def)

section \<open>Moving a handle\<close>

text \<open>
  C8, as the claim states it, fails for move assignment: the destination gives up the block
  it held. Handle 10 holds block 0, whose strong count is 2, and handle 12 holds block 1;
  after \<^verbatim>\<open>handle10 = std::move(handle12)\<close> the strong count of block 0 is 1.
\<close>

theorem move_assign_counterexample:
  "SharedPtr_move_assign plain_payload 10 12 two_blocks_state =
     Inr (two_blocks_state
            \<lparr>blocks := [0 \<mapsto> \<lparr>ref_count = 1, weak_count = 0, variant = ObjectControlBlock\<rparr>,
                        1 \<mapsto> \<lparr>ref_count = 1, weak_count = 0, variant = ObjectControlBlock\<rparr>],
             shared := [10 \<mapsto> \<lparr>data_ptr = Some (Storage 1), control_block = Some 1\<rparr>,
                        11 \<mapsto> \<lparr>data_ptr = Some (Storage 0), control_block = Some 0\<rparr>,
                        12 \<mapsto> empty_shared]\<rparr>)
   \<and> GetCount 0 two_blocks_state = Inr 2"
  by (simp add: SharedPtr_move_assign_def two_blocks_state_def drop_strong_def set_shared_def
      DecrementStrong_plain [where cb = "the (blocks two_blocks_state 0)"] GetCount_def
      fun_upd_twist)

text \<open>
  C8, amended, for every payload destructor \<open>dtor\<close>. Move construction gives the destination
  the pair of the source, leaves the source empty and changes no control block. Move
  assignment of a handle to itself changes nothing. Move assignment from another handle
  first runs \<^verbatim>\<open>DecrementStrong\<close> once on the block the destination held, if it held one; when
  that has returned and both handles are still there, then the destination has the pair
  that the source has, the source is empty, and nothing else has changed.

  The decrement takes the strong count of that block down by one; when the count was not 1,
  that is all, whatever the payload is, and when it was 1 the payload is torn down with the
  count at 0. A destructor that touches no handle leaves all handles as they were, so that
  the pair is the one the source had before the call.
\<close>

theorem move_transfers_pair:
  fixes s :: "'w::len state"
  assumes "shared s other = Some ot"
  shows "(shared s this = None \<longrightarrow>
            SharedPtr_move this other s =
              Inr (s\<lparr>shared := (shared s)(this \<mapsto> ot, other \<mapsto> empty_shared)\<rparr>))
       \<and> SharedPtr_move_assign dtor other other s = Inr s
       \<and> (\<forall>t s1 ot1. this \<noteq> other \<and> shared s this = Some t
              \<and> drop_strong dtor (control_block t) s = Inr s1
              \<and> shared s1 this \<noteq> None \<and> shared s1 other = Some ot1 \<longrightarrow>
            SharedPtr_move_assign dtor this other s =
              Inr (s1\<lparr>shared := (shared s1)(this \<mapsto> ot1, other \<mapsto> empty_shared)\<rparr>))
       \<and> drop_strong dtor None s = Inr s
       \<and> (\<forall>b. drop_strong dtor (Some b) s = DecrementStrong dtor b s)
       \<and> (\<forall>b cb. blocks s b = Some cb \<and> ref_count cb \<noteq> 1 \<longrightarrow>
            DecrementStrong dtor b s =
              Inr (s\<lparr>blocks := (blocks s)(b \<mapsto> cb\<lparr>ref_count := ref_count cb - 1\<rparr>)\<rparr>))
       \<and> (\<forall>b cb s2 cb2. blocks s b = Some cb \<and> ref_count cb = 1
              \<and> dtor b (s\<lparr>blocks := (blocks s)(b \<mapsto> cb\<lparr>ref_count := 0\<rparr>),
                             events := events s @ [Teardown b]\<rparr>) = Inr s2
              \<and> blocks s2 b = Some cb2 \<longrightarrow>
            DecrementStrong dtor b s =
              Inr (if weak_count cb2 = 0 then delete_this b s2 else s2))
       \<and> (\<forall>p s1. drop_strong plain_payload p s = Inr s1 \<longrightarrow> shared s1 = shared s)"
proof -
  have frame: "shared s1 = shared s"
    if "drop_strong plain_payload p s = Inr s1" for p s1
    using drop_strong_plain_frame [OF that] by simp
  have ot: "\<lparr>data_ptr = data_ptr x, control_block = control_block x\<rparr> = x" for x :: SharedPtr
    by simp
  have construct: "SharedPtr_move this other s =
              Inr (s\<lparr>shared := (shared s)(this \<mapsto> ot, other \<mapsto> empty_shared)\<rparr>)"
    if "shared s this = None"
    using assms that by (simp add: SharedPtr_move_def set_shared_def ot)
  have self: "SharedPtr_move_assign dtor other other s = Inr s"
    using assms by (simp add: SharedPtr_move_assign_def)
  have assign: "SharedPtr_move_assign dtor this other s =
              Inr (s1\<lparr>shared := (shared s1)(this \<mapsto> ot1, other \<mapsto> empty_shared)\<rparr>)"
    if "this \<noteq> other" "shared s this = Some t" "drop_strong dtor (control_block t) s = Inr s1"
      "shared s1 this \<noteq> None" "shared s1 other = Some ot1" for t s1 ot1
    using assms that by (auto simp add: SharedPtr_move_assign_def set_shared_def ot)
  have drop: "drop_strong dtor None s = Inr s"
    "drop_strong dtor (Some b) s = DecrementStrong dtor b s" for b
    by (simp_all add: drop_strong_def)
  have dec: "DecrementStrong dtor b s =
              Inr (s\<lparr>blocks := (blocks s)(b \<mapsto> cb\<lparr>ref_count := ref_count cb - 1\<rparr>)\<rparr>)"
    if "blocks s b = Some cb" "ref_count cb \<noteq> 1" for b cb
    using that by (simp add: DecrementStrong_eq)
  have last: "DecrementStrong dtor b s =
              Inr (if weak_count cb2 = 0 then delete_this b s2 else s2)"
    if "blocks s b = Some cb" "ref_count cb = 1"
      "dtor b (s\<lparr>blocks := (blocks s)(b \<mapsto> cb\<lparr>ref_count := 0\<rparr>),
                 events := events s @ [Teardown b]\<rparr>) = Inr s2"
      "blocks s2 b = Some cb2" for b cb s2 cb2
    using that by (simp add: DecrementStrong_eq)
  from construct self assign drop dec last frame show ?thesis
    by blast
qed

theorem move_transfers_pair_witness:
  "SharedPtr_move 13 12 two_blocks_state =
     Inr (two_blocks_state
            \<lparr>shared := (shared two_blocks_state)
                (13 \<mapsto> \<lparr>data_ptr = Some (Storage 1), control_block = Some 1\<rparr>,
                 12 \<mapsto> empty_shared)\<rparr>)
   \<and> SharedPtr_move_assign plain_payload 12 12 two_blocks_state = Inr two_blocks_state
   \<and> SharedPtr_move_assign plain_payload 10 12 two_blocks_state =
       Inr (two_blocks_state
              \<lparr>blocks := (blocks two_blocks_state)
                  (0 \<mapsto> \<lparr>ref_count = 1, weak_count = 0, variant = ObjectControlBlock\<rparr>),
               shared := (shared two_blocks_state)
                  (10 \<mapsto> \<lparr>data_ptr = Some (Storage 1), control_block = Some 1\<rparr>,
                   12 \<mapsto> empty_shared)\<rparr>)
   \<and> SharedPtr_move_assign (owning_payload 0 12) 10 13 holder_state =
       Inr (holder_gone
              \<lparr>shared := (shared holder_gone)
                  (10 \<mapsto> \<lparr>data_ptr = Some (Storage 1), control_block = Some 1\<rparr>,
                   13 \<mapsto> empty_shared)\<rparr>)
   \<and> SharedPtr_move_assign plain_payload 10 13 detached_state =
       Inr (detached_state
              \<lparr>shared := [10 \<mapsto> \<lparr>data_ptr = Some (Allocated 7), control_block = Some 0\<rparr>,
                          13 \<mapsto> empty_shared]\<rparr>)"
proof -
  let ?t = "\<lparr>data_ptr = Some (Storage 0), control_block = Some 0\<rparr>"
  let ?ot = "\<lparr>data_ptr = Some (Storage 1), control_block = Some 1\<rparr>"
  let ?x = "two_blocks_state
              \<lparr>blocks := (blocks two_blocks_state)
                 (0 \<mapsto> \<lparr>ref_count = 1, weak_count = 0, variant = ObjectControlBlock\<rparr>)\<rparr>"
  let ?p = "\<lparr>data_ptr = Some (Allocated 7), control_block = Some 0\<rparr>"
  let ?own = "owning_payload 0 12 :: block_id \<Rightarrow> 64 state \<Rightarrow> error + 64 state"
  have ot: "shared two_blocks_state 12 = Some ?ot" "shared holder_state 13 = Some ?ot"
    "shared detached_state 13 = Some ?p"
    by (simp_all add: two_blocks_state_def holder_state_def detached_state_def)
  have t: "shared two_blocks_state 10 = Some ?t" "shared holder_state 10 = Some ?t"
    "shared detached_state 10 = Some empty_shared"
    by (simp_all add: two_blocks_state_def holder_state_def detached_state_def)
  have free: "shared two_blocks_state 13 = None"
    by (simp add: two_blocks_state_def)
  have d: "drop_strong plain_payload (control_block ?t) two_blocks_state = Inr ?x"
    by (simp add: drop_strong_def two_blocks_state_def
        DecrementStrong_plain [where cb = "the (blocks two_blocks_state 0)"])
  have h: "drop_strong ?own (control_block ?t) holder_state = Inr holder_gone"
    by (simp add: drop_strong_def holder_state_def holder_gone_def owning_payload_def
        DecrementStrong_eq [where cb = "the (blocks holder_state 0)"] SharedPtr_dtor_def
        DecrementStrong_plain
          [where cb = "\<lparr>ref_count = 2, weak_count = 0, variant = ObjectControlBlock\<rparr>"]
        delete_this_def fun_upd_twist)
  have n: "drop_strong plain_payload (control_block empty_shared) detached_state =
             Inr detached_state"
    by (simp add: drop_strong_def empty_shared_def)
  have there: "shared ?x 10 \<noteq> None" "shared ?x 12 = Some ?ot"
    "shared holder_gone 10 \<noteq> None" "shared holder_gone 13 = Some ?ot"
    "shared detached_state 10 \<noteq> None"
    by (simp_all add: two_blocks_state_def holder_gone_def detached_state_def)
  have ne: "(10 :: nat) \<noteq> 12" "(10 :: nat) \<noteq> 13"
    by simp_all
  from move_transfers_pair [OF ot(1), where this = 13 and dtor = plain_payload] free
  have construct: "SharedPtr_move 13 12 two_blocks_state =
      Inr (two_blocks_state
             \<lparr>shared := (shared two_blocks_state)(13 \<mapsto> ?ot, 12 \<mapsto> empty_shared)\<rparr>)"
    "SharedPtr_move_assign plain_payload 12 12 two_blocks_state = Inr two_blocks_state"
    by blast+
  from move_transfers_pair [OF ot(1), where this = 10 and dtor = plain_payload]
    ne(1) t(1) d there(1,2)
  have plain: "SharedPtr_move_assign plain_payload 10 12 two_blocks_state =
      Inr (?x\<lparr>shared := (shared ?x)(10 \<mapsto> ?ot, 12 \<mapsto> empty_shared)\<rparr>)"
    by blast
  from move_transfers_pair [OF ot(2), where this = 10 and dtor = ?own]
    ne(2) t(2) h there(3,4)
  have owning: "SharedPtr_move_assign ?own 10 13 holder_state =
      Inr (holder_gone\<lparr>shared := (shared holder_gone)(10 \<mapsto> ?ot, 13 \<mapsto> empty_shared)\<rparr>)"
    by blast
  from move_transfers_pair [OF ot(3), where this = 10 and dtor = plain_payload]
    ne(2) t(3) n there(5) ot(3)
  have no_block: "SharedPtr_move_assign plain_payload 10 13 detached_state =
      Inr (detached_state
             \<lparr>shared := (shared detached_state)(10 \<mapsto> ?p, 13 \<mapsto> empty_shared)\<rparr>)"
    by blast
  show ?thesis
    unfolding construct plain owning no_block
    by (simp add: two_blocks_state_def detached_state_def)
qed

text \<open>
  Outside these conditions: \<^verbatim>\<open>head = std::move(head->next)\<close>, where the handle 10 holds
  block 0 and the handle 12 is a member of the payload of block 0. The decrement tears that
  payload down, the handle 12 with it, and the assignment then reads the handle 12, which is
  gone.
\<close>

lemma move_assign_from_destroyed_handle:
  "SharedPtr_move_assign (owning_payload 0 12) 10 12 holder_state = Inl InvalidHandle"
  by (simp add: SharedPtr_move_assign_def holder_state_def drop_strong_def owning_payload_def
      DecrementStrong_eq [where cb = "the (blocks holder_state 0)"] SharedPtr_dtor_def
      DecrementStrong_plain
        [where cb = "\<lparr>ref_count = 2, weak_count = 0, variant = ObjectControlBlock\<rparr>"]
      delete_this_def)

section \<open>A handle built from a null pointer of pointer type\<close>

text \<open>
  C9. \<^verbatim>\<open>SharedPtr(T* ptr)\<close> called with a null \<open>ptr\<close> still allocates a \<^verbatim>\<open>PtrControlBlock\<close>
  whose strong count is 1: the new handle holds that block, its \<^verbatim>\<open>operator bool\<close> is false
  and its \<^verbatim>\<open>UseCount\<close> is 1. The \<^verbatim>\<open>nullptr_t\<close> constructor allocates nothing and its handle
  has \<^verbatim>\<open>UseCount\<close> 0.
\<close>

theorem null_pointer_handle_counts_one:
  fixes s :: "'w::len state"
  assumes "shared s this = None"
  shows "(\<exists>s' p. SharedPtr_from_ptr this None s = Inr s'
           \<and> shared s' this = Some p
           \<and> control_block p = Some (next_block s)
           \<and> blocks s' (next_block s) = Some (new_block (PtrControlBlock None))
           \<and> ref_count (new_block (PtrControlBlock None) :: 'w ControlBlockBase) = 1
           \<and> \<not> operator_bool p
           \<and> UseCount p s' = Inr 1)
       \<and> (\<exists>s' p. SharedPtr_default this s = Inr s'
           \<and> shared s' this = Some p
           \<and> blocks s' = blocks s
           \<and> \<not> operator_bool p
           \<and> UseCount p s' = Inr 0)"
  using assms
  by (simp add: SharedPtr_from_ptr_def SharedPtr_default_def allocate_def set_shared_def
      new_block_def operator_bool_def UseCount_def GetCount_def empty_shared_def)

theorem null_pointer_handle_counts_one_witness:
  "\<exists>s' p. SharedPtr_from_ptr 10 None (init :: 64 state) = Inr s'
     \<and> shared s' 10 = Some p \<and> \<not> operator_bool p \<and> UseCount p s' = Inr 1"
  using null_pointer_handle_counts_one [of "init :: 64 state" 10]
  by (auto simp add: init_def)

section \<open>Decrementing a counter that is 0\<close>

text \<open>
  C10. \<^verbatim>\<open>DecrementStrong\<close> on a block whose strong count is 0 leaves the count at
  \<open>2 ^ w - 1\<close>, runs no teardown and releases nothing; \<^verbatim>\<open>DecrementWeak\<close> on a block whose
  weak count is 0 leaves that count at \<open>2 ^ w - 1\<close> and does not release the block. In both
  cases nothing else of the state changes, the list of events included.
\<close>

theorem decrement_at_zero_wraps:
  fixes s :: "'w::len state"
  assumes "blocks s b = Some cb"
  shows "(ref_count cb = 0 \<longrightarrow>
            DecrementStrong dtor b s = Inr (s\<lparr>blocks := (blocks s)(b \<mapsto> cb\<lparr>ref_count := - 1\<rparr>)\<rparr>))
       \<and> (weak_count cb = 0 \<longrightarrow>
            DecrementWeak b s = Inr (s\<lparr>blocks := (blocks s)(b \<mapsto> cb\<lparr>weak_count := - 1\<rparr>)\<rparr>))
       \<and> unat (- 1 :: 'w word) = 2 ^ LENGTH('w) - 1"
  using assms by (simp add: DecrementStrong_def DecrementWeak_def unat_max_word)

theorem decrement_at_zero_wraps_witness:
  "DecrementStrong plain_payload 0 (init\<lparr>blocks := [0 \<mapsto> idle_block]\<rparr>)
     = Inr (init\<lparr>blocks := [0 \<mapsto> idle_block\<lparr>ref_count := - 1\<rparr>]\<rparr>)
   \<and> DecrementWeak 0 (init\<lparr>blocks := [0 \<mapsto> idle_block]\<rparr>)
     = Inr (init\<lparr>blocks := [0 \<mapsto> idle_block\<lparr>weak_count := - 1\<rparr>]\<rparr>)
   \<and> unat (- 1 :: 64 word) = 18446744073709551615"
  using decrement_at_zero_wraps
    [of "init\<lparr>blocks := [0 \<mapsto> idle_block]\<rparr>" 0 idle_block plain_payload]
  by (simp add: init_def idle_block_def)

end
